theory Spec2Isabelle
  imports Complex_Main
begin

section \<open>The T-structure shell mesh of \<open>content/shells/tstructmesh.py\<close>\<close>

text \<open>
  \<open>MakeTStructureMesh\<close> fills a netgen mesh with the points of two rectangular grids, with
  the 2D faces of the upper grid, of a connector strip and of the lower grid, and with eight
  tagged chains of 1D boundary segments. The model below follows the function statement by
  statement. Python integers are \<open>int\<close>; coordinates, which the source computes in floating
  point, are real numbers; the netgen mesh is a record of what has been added to it, in the
  order of the \<open>mesh.Add\<close> calls. The model ends with the netgen mesh as it stands before
  \<open>mesh.Compress()\<close> and \<open>ng.Mesh(mesh)\<close>, which belong to the libraries.
\<close>

subsection \<open>Python values and control\<close>

datatype error = ZeroDivisionError | IndexError

definition bind_err :: "error + 'a \<Rightarrow> ('a \<Rightarrow> error + 'b) \<Rightarrow> error + 'b" where
  "bind_err r f = (case r of Inl e \<Rightarrow> Inl e | Inr v \<Rightarrow> f v)"

text \<open>\<open>range(a, b)\<close>: the integers from \<open>a\<close> up to \<open>b - 1\<close>, none when \<open>b \<le> a\<close>.\<close>

definition range_py :: "int \<Rightarrow> int \<Rightarrow> int list" where
  "range_py a b = [a..b - 1]"

text \<open>A \<open>for\<close> loop over a list: the body updates the state or raises, which ends the loop.\<close>

fun for_each :: "'a list \<Rightarrow> ('a \<Rightarrow> 's \<Rightarrow> error + 's) \<Rightarrow> 's \<Rightarrow> error + 's" where
  "for_each [] body s = Inr s"
| "for_each (x # xs) body s =
     (case body x s of Inl e \<Rightarrow> Inl e | Inr s' \<Rightarrow> for_each xs body s')"

text \<open>\<open>a / b\<close> on integers: true division, which raises on a zero divisor.\<close>

definition truediv :: "int \<Rightarrow> int \<Rightarrow> error + real" where
  "truediv a b = (if b = 0 then Inl ZeroDivisionError else Inr (real_of_int a / real_of_int b))"

text \<open>
  \<open>int(n/2)\<close>: the quotient is truncated towards zero. (The float quotient is exact up to
  \<open>2^53\<close> in absolute value, far beyond any grid the loops could enumerate.)
\<close>

definition int_half :: "int \<Rightarrow> int" where
  "int_half n = (if 0 \<le> n then n div 2 else - ((- n) div 2))"

text \<open>
  \<open>xs[i]\<close>: a negative index counts from the end, an index outside the list raises
  \<open>IndexError\<close>.
\<close>

definition getitem :: "'a list \<Rightarrow> int \<Rightarrow> error + 'a" where
  "getitem xs i =
     (if 0 \<le> i \<and> i < int (length xs) then Inr (xs ! nat i)
      else if - int (length xs) \<le> i \<and> i < 0 then Inr (xs ! nat (int (length xs) + i))
      else Inl IndexError)"

text \<open>
  The same read without Python's wrap-around: it raises unless \<open>0 \<le> i < len(xs)\<close>. Running
  the function with this read instead of \<open>getitem\<close> tells whether every index it uses
  lies inside the list.
\<close>

definition getitem_inside :: "'a list \<Rightarrow> int \<Rightarrow> error + 'a" where
  "getitem_inside xs i =
     (if 0 \<le> i \<and> i < int (length xs) then Inr (xs ! nat i) else Inl IndexError)"

text \<open>\<open>[pids[p] for p in pnum]\<close>, reading from left to right.\<close>

fun pick :: "('a list \<Rightarrow> int \<Rightarrow> error + 'a) \<Rightarrow> 'a list \<Rightarrow> int list \<Rightarrow> error + 'a list" where
  "pick get pids [] = Inr []"
| "pick get pids (p # ps) =
     bind_err (get pids p) (\<lambda>v. bind_err (pick get pids ps) (\<lambda>vs. Inr (v # vs)))"

subsection \<open>The netgen mesh\<close>

type_synonym pnt = "real \<times> real \<times> real"

text \<open>
  The handle \<open>mesh.Add\<close> returns for a point is opaque to the function; the model takes it
  to be the position of the point in the mesh's point table, counted from 0.
\<close>

type_synonym pid = int

record mesh =
  dim :: int
  points :: "pnt list"
  facedescriptors :: "(int \<times> int \<times> int) list"
  elements2d :: "(int \<times> pid list) list"
  elements1d :: "(pid list \<times> int) list"
  cd2names :: "(int \<times> string) list"

definition Mesh :: mesh where
  "Mesh = \<lparr>dim = 3, points = [], facedescriptors = [], elements2d = [], elements1d = [],
     cd2names = []\<rparr>"

text \<open>\<open>pids.append(mesh.Add(meshing.MeshPoint(csg.Pnt(x,y,z))))\<close>\<close>

definition add_point :: "pnt \<Rightarrow> mesh \<times> pid list \<Rightarrow> mesh \<times> pid list" where
  "add_point p s =
     (case s of (m, pids) \<Rightarrow> (m\<lparr>points := points m @ [p]\<rparr>, pids @ [int (length (points m))]))"

text \<open>\<open>mesh.Add(meshing.FaceDescriptor(surfnr, domin, bc))\<close>\<close>

definition add_facedescriptor :: "int \<times> int \<times> int \<Rightarrow> mesh \<Rightarrow> mesh" where
  "add_facedescriptor fd m = m\<lparr>facedescriptors := facedescriptors m @ [fd]\<rparr>"

text \<open>\<open>mesh.Add(meshing.Element2D(index, vertices))\<close>\<close>

definition add_element2d :: "int \<Rightarrow> pid list \<Rightarrow> mesh \<Rightarrow> mesh" where
  "add_element2d ix vs m = m\<lparr>elements2d := elements2d m @ [(ix, vs)]\<rparr>"

text \<open>\<open>mesh.Add(meshing.Element1D(vertices, index=tag))\<close>\<close>

definition add_element1d :: "pid list \<Rightarrow> int \<Rightarrow> mesh \<Rightarrow> mesh" where
  "add_element1d vs tag m = m\<lparr>elements1d := elements1d m @ [(vs, tag)]\<rparr>"

text \<open>\<open>mesh.SetCD2Name(tag, name)\<close>\<close>

definition SetCD2Name :: "int \<Rightarrow> string \<Rightarrow> mesh \<Rightarrow> mesh" where
  "SetCD2Name tag name m = m\<lparr>cd2names := cd2names m @ [(tag, name)]\<rparr>"

subsection \<open>Points (source lines 9 to 18)\<close>

definition upper_points :: "int \<Rightarrow> int \<Rightarrow> mesh \<times> pid list \<Rightarrow> error + mesh \<times> pid list" where
  "upper_points nx1 ny1 =
     for_each (range_py 0 (ny1 + 1)) (\<lambda>i.
       for_each (range_py 0 (nx1 + 1)) (\<lambda>j s.
         bind_err (truediv j nx1) (\<lambda>x.
         bind_err (truediv i ny1) (\<lambda>y.
         Inr (add_point (x, y, 0) s)))))"

definition lower_points :: "int \<Rightarrow> int \<Rightarrow> real \<Rightarrow> mesh \<times> pid list \<Rightarrow> error + mesh \<times> pid list" where
  "lower_points nx2 ny2 ratio =
     for_each (range_py 1 (ny2 + 1)) (\<lambda>i.
       for_each (range_py 0 (nx2 + 1)) (\<lambda>j s.
         bind_err (truediv j nx2) (\<lambda>x.
         bind_err (truediv (- i) ny2) (\<lambda>z.
         Inr (add_point (x, ratio, z) s)))))"

definition make_points ::
  "int \<Rightarrow> int \<Rightarrow> int \<Rightarrow> int \<Rightarrow> real \<Rightarrow> mesh \<times> pid list \<Rightarrow> error + mesh \<times> pid list" where
  "make_points nx1 ny1 nx2 ny2 ratio s =
     bind_err (upper_points nx1 ny1 s) (lower_points nx2 ny2 ratio)"

subsection \<open>2D faces (source lines 22 to 69)\<close>

text \<open>One cell of the upper grid (lines 24 to 36).\<close>

definition upper_cell ::
  "(pid list \<Rightarrow> int \<Rightarrow> error + pid) \<Rightarrow> bool \<Rightarrow> int \<Rightarrow> pid list \<Rightarrow> int \<Rightarrow> int \<Rightarrow> mesh \<Rightarrow> error + mesh" where
  "upper_cell get quads nx1 pids i j m =
     (let base = i * (nx1 + 1) + j in
      if quads then
        bind_err (pick get pids [base, base + 1, base + nx1 + 2, base + nx1 + 1]) (\<lambda>elpids.
        Inr (add_element2d 1 elpids m))
      else
        bind_err (pick get pids [base, base + 1, base + nx1 + 1]) (\<lambda>elpids1.
        bind_err (pick get pids [base + 1, base + nx1 + 2, base + nx1 + 1]) (\<lambda>elpids2.
        Inr (add_element2d 1 elpids2 (add_element2d 1 elpids1 m)))))"

text \<open>One cell of the connector strip (lines 41 to 53).\<close>

definition connector_cell ::
  "(pid list \<Rightarrow> int \<Rightarrow> error + pid) \<Rightarrow> bool \<Rightarrow> int \<Rightarrow> int \<Rightarrow> int \<Rightarrow> pid list \<Rightarrow> int \<Rightarrow> mesh \<Rightarrow> error + mesh" where
  "connector_cell get quads nx1 ny1 base1 pids j m =
     (let base = int_half ny1 * (nx1 + 1) + j in
      if quads then
        bind_err (pick get pids [base, base + 1, base1 + j + 1, base1 + j]) (\<lambda>elpids.
        Inr (add_element2d 1 elpids m))
      else
        bind_err (pick get pids [base, base + 1, base + nx1 + 1]) (\<lambda>elpids1.
        bind_err (pick get pids [base + 1, base + nx1 + 2, base + nx1 + 1]) (\<lambda>elpids2.
        Inr (add_element2d 1 elpids2 (add_element2d 1 elpids1 m)))))"

text \<open>One cell of the lower grid (lines 57 to 69).\<close>

definition lower_cell ::
  "(pid list \<Rightarrow> int \<Rightarrow> error + pid) \<Rightarrow> bool \<Rightarrow> int \<Rightarrow> int \<Rightarrow> pid list \<Rightarrow> int \<Rightarrow> int \<Rightarrow> mesh \<Rightarrow> error + mesh" where
  "lower_cell get quads nx2 base1 pids i j m =
     (let base = base1 + (i - 1) * (nx2 + 1) + j in
      if quads then
        bind_err (pick get pids [base, base + 1, base + nx2 + 2, base + nx2 + 1]) (\<lambda>elpids.
        Inr (add_element2d 1 elpids m))
      else
        bind_err (pick get pids [base, base + 1, base + nx2 + 1]) (\<lambda>elpids1.
        bind_err (pick get pids [base + 1, base + nx2 + 2, base + nx2 + 1]) (\<lambda>elpids2.
        Inr (add_element2d 1 elpids2 (add_element2d 1 elpids1 m)))))"

definition upper_faces ::
  "(pid list \<Rightarrow> int \<Rightarrow> error + pid) \<Rightarrow> bool \<Rightarrow> int \<Rightarrow> int \<Rightarrow> pid list \<Rightarrow> mesh \<Rightarrow> error + mesh" where
  "upper_faces get quads nx1 ny1 pids =
     for_each (range_py 0 ny1) (\<lambda>i.
       for_each (range_py 0 nx1) (\<lambda>j. upper_cell get quads nx1 pids i j))"

definition connector_faces ::
  "(pid list \<Rightarrow> int \<Rightarrow> error + pid) \<Rightarrow> bool \<Rightarrow> int \<Rightarrow> int \<Rightarrow> int \<Rightarrow> pid list \<Rightarrow> mesh \<Rightarrow> error + mesh" where
  "connector_faces get quads nx1 ny1 base1 pids =
     for_each (range_py 0 nx1) (\<lambda>j. connector_cell get quads nx1 ny1 base1 pids j)"

definition lower_faces ::
  "(pid list \<Rightarrow> int \<Rightarrow> error + pid) \<Rightarrow> bool \<Rightarrow> int \<Rightarrow> int \<Rightarrow> int \<Rightarrow> pid list \<Rightarrow> mesh \<Rightarrow> error + mesh" where
  "lower_faces get quads nx2 ny2 base1 pids =
     for_each (range_py 1 ny2) (\<lambda>i.
       for_each (range_py 0 nx2) (\<lambda>j. lower_cell get quads nx2 base1 pids i j))"

subsection \<open>1D boundary segments (source lines 71 to 92)\<close>

text \<open>\<open>mesh.Add(meshing.Element1D([pids[a], pids[b]], index=tag))\<close>\<close>

definition segment ::
  "(pid list \<Rightarrow> int \<Rightarrow> error + pid) \<Rightarrow> pid list \<Rightarrow> int \<Rightarrow> int \<Rightarrow> int \<Rightarrow> mesh \<Rightarrow> error + mesh" where
  "segment get pids a b tag m =
     bind_err (pick get pids [a, b]) (\<lambda>vs. Inr (add_element1d vs tag m))"

definition boundary_segments ::
  "(pid list \<Rightarrow> int \<Rightarrow> error + pid) \<Rightarrow> int \<Rightarrow> int \<Rightarrow> int \<Rightarrow> int \<Rightarrow> int \<Rightarrow> pid list \<Rightarrow> mesh \<Rightarrow> error + mesh" where
  "boundary_segments get nx1 ny1 nx2 ny2 base1 pids m0 =
     bind_err (for_each (range_py 0 nx1) (\<lambda>i.
       segment get pids i (i + 1) 1) m0) (\<lambda>m.
     bind_err (for_each (range_py 0 ny1) (\<lambda>i.
       segment get pids (i * (nx1 + 1) + nx1) ((i + 1) * (nx1 + 1) + nx1) 2) m) (\<lambda>m.
     bind_err (for_each (range_py 0 nx1) (\<lambda>i.
       segment get pids (ny1 * (nx1 + 1) + i + 1) (ny1 * (nx1 + 1) + i) 3) m) (\<lambda>m.
     bind_err (for_each (range_py 0 ny1) (\<lambda>i.
       segment get pids ((i + 1) * (nx1 + 1)) (i * (nx1 + 1)) 4) m) (\<lambda>m.
     bind_err (for_each (range_py 0 nx2) (\<lambda>i.
       segment get pids (int_half ny1 * (nx1 + 1) + i) (int_half ny1 * (nx1 + 1) + i + 1) 5) m) (\<lambda>m.
     bind_err (segment get pids (int_half ny1 * (nx1 + 1)) base1 6 m) (\<lambda>m.
     bind_err (for_each (range_py 0 (ny2 - 1)) (\<lambda>i.
       segment get pids (i * (nx2 + 1) + base1) ((i + 1) * (nx2 + 1) + base1) 6) m) (\<lambda>m.
     bind_err (for_each (range_py 0 nx2) (\<lambda>i.
       segment get pids ((ny2 - 1) * (nx2 + 1) + i + base1)
         ((ny2 - 1) * (nx2 + 1) + i + 1 + base1) 7) m) (\<lambda>m.
     bind_err (for_each (range_py 0 (ny2 - 1)) (\<lambda>i.
       segment get pids ((i + 1) * (nx2 + 1) + nx2 + base1) (i * (nx2 + 1) + nx2 + base1) 8) m) (\<lambda>m.
     segment get pids (base1 + nx1) (int_half ny1 * (nx1 + 1) + nx1) 8 m)))))))))"

subsection \<open>Boundary names (source lines 94 to 102)\<close>

definition set_names :: "mesh \<Rightarrow> mesh" where
  "set_names m =
     SetCD2Name 8 ''downleft'' (SetCD2Name 7 ''downbottom'' (SetCD2Name 6 ''downright''
       (SetCD2Name 5 ''interface'' (SetCD2Name 4 ''upleft'' (SetCD2Name 3 ''uptop''
         (SetCD2Name 2 ''upright'' (SetCD2Name 1 ''upbottom'' m)))))))"

subsection \<open>The function\<close>

text \<open>
  The body of the function (source lines 5 to 102), with the read \<open>pids[p]\<close> as the
  parameter \<open>get\<close>: Python's own read gives the function, the read that stays inside the
  list states that no index leaves it.
\<close>

definition MakeTStructureMesh_reading ::
  "(pid list \<Rightarrow> int \<Rightarrow> error + pid) \<Rightarrow> bool \<Rightarrow> int \<Rightarrow> int \<Rightarrow> int \<Rightarrow> int \<Rightarrow> real \<Rightarrow> error + mesh" where
  "MakeTStructureMesh_reading get quads nx1 ny1 nx2 ny2 ratio =
     bind_err (make_points nx1 ny1 nx2 ny2 ratio (Mesh\<lparr>dim := 3\<rparr>, [])) (\<lambda>s.
       case s of (m, pids) \<Rightarrow>
         bind_err (upper_faces get quads nx1 ny1 pids (add_facedescriptor (1, 1, 1) m)) (\<lambda>m.
         let base1 = (ny1 + 1) * (nx1 + 1) in
         bind_err (connector_faces get quads nx1 ny1 base1 pids m) (\<lambda>m.
         bind_err (lower_faces get quads nx2 ny2 base1 pids m) (\<lambda>m.
         bind_err (boundary_segments get nx1 ny1 nx2 ny2 base1 pids m) (\<lambda>m.
         Inr (set_names m))))))"

text \<open>The function as Python runs it, with Python's list indexing.\<close>

definition MakeTStructureMesh :: "bool \<Rightarrow> int \<Rightarrow> int \<Rightarrow> int \<Rightarrow> int \<Rightarrow> real \<Rightarrow> error + mesh" where
  "MakeTStructureMesh = MakeTStructureMesh_reading getitem"

subsection \<open>What the loops add, in closed form\<close>

text \<open>
  The lists below write down, loop by loop, what a run without exception has added to the
  mesh. The lemmas of the next section show that the function computes exactly these lists.
\<close>

definition upper_grid :: "int \<Rightarrow> int \<Rightarrow> pnt list" where
  "upper_grid nx1 ny1 =
     concat (map (\<lambda>i. map (\<lambda>j. (real_of_int j / real_of_int nx1, real_of_int i / real_of_int ny1, 0))
       (range_py 0 (nx1 + 1))) (range_py 0 (ny1 + 1)))"

definition lower_grid :: "int \<Rightarrow> int \<Rightarrow> real \<Rightarrow> pnt list" where
  "lower_grid nx2 ny2 ratio =
     concat (map (\<lambda>i. map (\<lambda>j. (real_of_int j / real_of_int nx2, ratio, real_of_int (- i) / real_of_int ny2))
       (range_py 0 (nx2 + 1))) (range_py 1 (ny2 + 1)))"

text \<open>The faces of a grid cell whose first corner is \<open>base\<close>, in a grid of \<open>n\<close> cells per row.\<close>

definition grid_cell :: "bool \<Rightarrow> int \<Rightarrow> int \<Rightarrow> (int \<times> pid list) list" where
  "grid_cell quads n base =
     (if quads then [(1, [base, base + 1, base + n + 2, base + n + 1])]
      else [(1, [base, base + 1, base + n + 1]), (1, [base + 1, base + n + 2, base + n + 1])])"

definition upper_face_list :: "bool \<Rightarrow> int \<Rightarrow> int \<Rightarrow> (int \<times> pid list) list" where
  "upper_face_list quads nx1 ny1 =
     concat (map (\<lambda>i. concat (map (\<lambda>j. grid_cell quads nx1 (i * (nx1 + 1) + j))
       (range_py 0 nx1))) (range_py 0 ny1))"

definition connector_face_list :: "bool \<Rightarrow> int \<Rightarrow> int \<Rightarrow> (int \<times> pid list) list" where
  "connector_face_list quads nx1 ny1 =
     concat (map (\<lambda>j.
       if quads then
         [(1, [int_half ny1 * (nx1 + 1) + j, int_half ny1 * (nx1 + 1) + j + 1,
               (ny1 + 1) * (nx1 + 1) + j + 1, (ny1 + 1) * (nx1 + 1) + j])]
       else grid_cell False nx1 (int_half ny1 * (nx1 + 1) + j))
       (range_py 0 nx1))"

definition lower_face_list :: "bool \<Rightarrow> int \<Rightarrow> int \<Rightarrow> int \<Rightarrow> int \<Rightarrow> (int \<times> pid list) list" where
  "lower_face_list quads nx1 ny1 nx2 ny2 =
     concat (map (\<lambda>i. concat (map (\<lambda>j.
         grid_cell quads nx2 ((ny1 + 1) * (nx1 + 1) + (i - 1) * (nx2 + 1) + j))
       (range_py 0 nx2))) (range_py 1 ny2))"

text \<open>The segments of one boundary tag, in the order the function adds them.\<close>

definition tag_chain :: "int \<Rightarrow> int \<Rightarrow> int \<Rightarrow> int \<Rightarrow> int \<Rightarrow> pid list list" where
  "tag_chain tag nx1 ny1 nx2 ny2 =
     (let base1 = (ny1 + 1) * (nx1 + 1); seam = int_half ny1 * (nx1 + 1) in
      if tag = 1 then map (\<lambda>i. [i, i + 1]) (range_py 0 nx1)
      else if tag = 2 then
        map (\<lambda>i. [i * (nx1 + 1) + nx1, (i + 1) * (nx1 + 1) + nx1]) (range_py 0 ny1)
      else if tag = 3 then
        map (\<lambda>i. [ny1 * (nx1 + 1) + i + 1, ny1 * (nx1 + 1) + i]) (range_py 0 nx1)
      else if tag = 4 then
        map (\<lambda>i. [(i + 1) * (nx1 + 1), i * (nx1 + 1)]) (range_py 0 ny1)
      else if tag = 5 then
        map (\<lambda>i. [seam + i, seam + i + 1]) (range_py 0 nx2)
      else if tag = 6 then
        [seam, base1] #
        map (\<lambda>i. [i * (nx2 + 1) + base1, (i + 1) * (nx2 + 1) + base1]) (range_py 0 (ny2 - 1))
      else if tag = 7 then
        map (\<lambda>i. [(ny2 - 1) * (nx2 + 1) + i + base1, (ny2 - 1) * (nx2 + 1) + i + 1 + base1])
          (range_py 0 nx2)
      else if tag = 8 then
        map (\<lambda>i. [(i + 1) * (nx2 + 1) + nx2 + base1, i * (nx2 + 1) + nx2 + base1])
          (range_py 0 (ny2 - 1)) @
        [[base1 + nx1, seam + nx1]]
      else [])"

definition segment_list :: "int \<Rightarrow> int \<Rightarrow> int \<Rightarrow> int \<Rightarrow> (pid list \<times> int) list" where
  "segment_list nx1 ny1 nx2 ny2 =
     concat (map (\<lambda>tag. map (\<lambda>vs. (vs, tag)) (tag_chain tag nx1 ny1 nx2 ny2)) [1, 2, 3, 4, 5, 6, 7, 8])"

definition name_list :: "(int \<times> string) list" where
  "name_list =
     [(1, ''upbottom''), (2, ''upright''), (3, ''uptop''), (4, ''upleft''),
      (5, ''interface''), (6, ''downright''), (7, ''downbottom''), (8, ''downleft'')]"

text \<open>The segments a mesh carries under one tag.\<close>

definition segments_of :: "int \<Rightarrow> mesh \<Rightarrow> pid list list" where
  "segments_of tag m = map fst (filter (\<lambda>e. snd e = tag) (elements1d m))"

text \<open>The mesh a run without exception returns.\<close>

definition built_mesh :: "bool \<Rightarrow> int \<Rightarrow> int \<Rightarrow> int \<Rightarrow> int \<Rightarrow> real \<Rightarrow> mesh" where
  "built_mesh quads nx1 ny1 nx2 ny2 ratio =
     \<lparr>dim = 3,
      points = upper_grid nx1 ny1 @ lower_grid nx2 ny2 ratio,
      facedescriptors = [(1, 1, 1)],
      elements2d = upper_face_list quads nx1 ny1 @ connector_face_list quads nx1 ny1 @
        lower_face_list quads nx1 ny1 nx2 ny2,
      elements1d = segment_list nx1 ny1 nx2 ny2,
      cd2names = name_list\<rparr>"

subsection \<open>Chains of segments\<close>

text \<open>
  A list of segments is a chain when it can be walked from an endpoint of its first segment,
  each segment leading from the point reached so far to its other endpoint, without
  visiting a point twice. \<open>walk\<close> returns the points visited, in order.
\<close>

fun other_end :: "pid \<Rightarrow> pid list \<Rightarrow> pid option" where
  "other_end p [a, b] = (if p = a then Some b else if p = b then Some a else None)"
| "other_end p vs = None"

fun walk :: "pid \<Rightarrow> pid list list \<Rightarrow> pid list option" where
  "walk p [] = Some [p]"
| "walk p (s # ss) =
     (case other_end p s of
        None \<Rightarrow> None
      | Some q \<Rightarrow> (case walk q ss of None \<Rightarrow> None | Some vs \<Rightarrow> Some (p # vs)))"

definition is_chain :: "pid list list \<Rightarrow> bool" where
  "is_chain segs =
     (case segs of
        [] \<Rightarrow> False
      | s # ss \<Rightarrow> (\<exists>p \<in> set s. case walk p segs of None \<Rightarrow> False | Some vs \<Rightarrow> distinct vs))"

subsection \<open>Meshes that differ in the height of the lower points only\<close>

text \<open>
  Two meshes stand in this relation when they hold the same face descriptors, faces,
  segments and names, as many points with the same \<open>x\<close> and \<open>z\<close> coordinates, and the same
  first \<open>k\<close> points.
\<close>

definition same_but_lower_y :: "nat \<Rightarrow> mesh \<Rightarrow> mesh \<Rightarrow> bool" where
  "same_but_lower_y k m1 m2 \<longleftrightarrow>
     dim m1 = dim m2 \<and> facedescriptors m1 = facedescriptors m2 \<and>
     elements2d m1 = elements2d m2 \<and> elements1d m1 = elements1d m2 \<and>
     cd2names m1 = cd2names m2 \<and>
     map (\<lambda>p. (fst p, snd (snd p))) (points m1) = map (\<lambda>p. (fst p, snd (snd p))) (points m2) \<and>
     take k (points m1) = take k (points m2)"


section \<open>The function computes the closed forms\<close>

lemma bind_err_Inr: "bind_err (Inr v) f = f v"
  by (simp add: bind_err_def)

lemma bind_err_Inl: "bind_err (Inl e) f = Inl e"
  by (simp add: bind_err_def)

lemma for_each_act:
  assumes body: "\<And>x s. x \<in> set xs \<Longrightarrow> body x s = Inr (act (f x) s)"
    and act_nil: "\<And>s. act [] s = s"
    and act_app: "\<And>a b s. act (a @ b) s = act b (act a s)"
  shows "for_each xs body s = Inr (act (concat (map f xs)) s)"
  using body
proof (induction xs arbitrary: s)
  case Nil
  show ?case by (simp add: act_nil)
next
  case (Cons x xs)
  have "body x s = Inr (act (f x) s)"
    using Cons.prems by simp
  moreover have "for_each xs body (act (f x) s) = Inr (act (concat (map f xs)) (act (f x) s))"
    using Cons.IH Cons.prems by simp
  ultimately show ?case
    by (simp add: act_app)
qed

lemma fold_add_point:
  "fold add_point ps (m, pids) =
     (m\<lparr>points := points m @ ps\<rparr>,
      pids @ [int (length (points m))..int (length (points m)) + int (length ps) - 1])"
proof (induction ps arbitrary: m pids)
  case Nil
  show ?case by simp
next
  case (Cons p ps)
  have "[int (length (points m))..int (length (points m)) + int (length (p # ps)) - 1] =
        int (length (points m)) # [int (length (points m)) + 1..int (length (points m)) + int (length (p # ps)) - 1]"
    by (rule upto_rec1) simp
  then show ?case
    using Cons.IH by (simp add: add_point_def add.commute add.left_commute)
qed

lemma set_range_py: "set (range_py a b) = {a..b - 1}"
  by (simp add: range_py_def)

lemma length_range_py: "length (range_py a b) = nat (b - a)"
  by (simp add: range_py_def)

lemma upper_points_eq:
  assumes "nx1 \<noteq> 0" and "ny1 \<noteq> 0"
  shows "upper_points nx1 ny1 s = Inr (fold add_point (upper_grid nx1 ny1) s)"
proof -
  have inner: "for_each (range_py 0 (nx1 + 1)) (\<lambda>j s.
         bind_err (truediv j nx1) (\<lambda>x. bind_err (truediv i ny1) (\<lambda>y. Inr (add_point (x, y, 0) s)))) s =
       Inr (fold add_point (concat (map (\<lambda>j. [(real_of_int j / real_of_int nx1, real_of_int i / real_of_int ny1, 0)])
         (range_py 0 (nx1 + 1)))) s)" for i s
    by (rule for_each_act) (simp_all add: truediv_def bind_err_Inr assms)
  show ?thesis
    unfolding upper_points_def upper_grid_def
    by (rule for_each_act) (simp_all add: inner)
qed

lemma lower_points_eq:
  assumes "nx2 \<noteq> 0" and "ny2 \<noteq> 0"
  shows "lower_points nx2 ny2 ratio s = Inr (fold add_point (lower_grid nx2 ny2 ratio) s)"
proof -
  have inner: "for_each (range_py 0 (nx2 + 1)) (\<lambda>j s.
         bind_err (truediv j nx2) (\<lambda>x. bind_err (truediv (- i) ny2) (\<lambda>z. Inr (add_point (x, ratio, z) s)))) s =
       Inr (fold add_point (concat (map (\<lambda>j. [(real_of_int j / real_of_int nx2, ratio, real_of_int (- i) / real_of_int ny2)])
         (range_py 0 (nx2 + 1)))) s)" for i s
    by (rule for_each_act) (simp_all add: truediv_def bind_err_Inr assms)
  show ?thesis
    unfolding lower_points_def lower_grid_def
    by (rule for_each_act) (simp_all add: inner)
qed

lemma length_concat_rows:
  assumes "\<And>x. x \<in> set xs \<Longrightarrow> length (f x) = c"
  shows "length (concat (map f xs)) = length xs * c"
  using assms by (induction xs) simp_all

lemma length_upper_grid: "length (upper_grid nx1 ny1) = nat (ny1 + 1) * nat (nx1 + 1)"
  unfolding upper_grid_def
  by (subst length_concat_rows [where c = "nat (nx1 + 1)"]) (simp_all add: length_range_py)

lemma length_lower_grid: "length (lower_grid nx2 ny2 ratio) = nat ny2 * nat (nx2 + 1)"
  unfolding lower_grid_def
  by (subst length_concat_rows [where c = "nat (nx2 + 1)"]) (simp_all add: length_range_py)

lemma make_points_eq:
  assumes "nx1 \<noteq> 0" and "ny1 \<noteq> 0" and "nx2 \<noteq> 0" and "ny2 \<noteq> 0"
  shows "make_points nx1 ny1 nx2 ny2 ratio (Mesh\<lparr>dim := 3\<rparr>, []) =
     Inr (Mesh\<lparr>dim := 3, points := upper_grid nx1 ny1 @ lower_grid nx2 ny2 ratio\<rparr>,
          [0..int (length (upper_grid nx1 ny1 @ lower_grid nx2 ny2 ratio)) - 1])"
proof -
  have "make_points nx1 ny1 nx2 ny2 ratio s =
      Inr (fold add_point (upper_grid nx1 ny1 @ lower_grid nx2 ny2 ratio) s)" for s
    by (simp add: make_points_def upper_points_eq lower_points_eq assms bind_err_Inr)
  then show ?thesis
    by (simp only: fold_add_point) (simp add: Mesh_def)
qed

lemma getitem_upto:
  assumes "0 \<le> p" and "p < n"
  shows "getitem [0..n - 1] p = Inr p" and "getitem_inside [0..n - 1] p = Inr p"
  using assms by (simp_all add: getitem_def getitem_inside_def)

lemma pick_in_range:
  assumes "\<And>p. 0 \<le> p \<Longrightarrow> p < n \<Longrightarrow> get pids p = Inr p"
    and "\<forall>p \<in> set ps. 0 \<le> p \<and> p < n"
  shows "pick get pids ps = Inr ps"
  using assms(2) by (induction ps) (simp_all add: assms(1) bind_err_Inr)


lemma grid_index_bound:
  fixes i j n r :: int
  assumes "0 \<le> i" and "i < r" and "0 \<le> j" and "j \<le> n"
  shows "0 \<le> i * (n + 1) + j" and "i * (n + 1) + j < r * (n + 1)"
proof -
  have "0 \<le> i * (n + 1)"
    using assms by simp
  then show "0 \<le> i * (n + 1) + j"
    using assms by simp
  have "(i + 1) * (n + 1) \<le> r * (n + 1)"
    using assms by (intro mult_right_mono) simp_all
  then show "i * (n + 1) + j < r * (n + 1)"
    using assms by (simp add: algebra_simps)
qed

lemma int_half_bounds:
  assumes "1 \<le> n"
  shows "0 \<le> int_half n" and "int_half n < n"
  using assms by (simp_all add: int_half_def)

lemma grid_cell_eq:
  assumes get: "\<And>p. 0 \<le> p \<Longrightarrow> p < n \<Longrightarrow> get pids p = Inr p"
    and "0 \<le> base" and "base + k + 2 < n" and "0 \<le> k"
  shows "(if quads then
        bind_err (pick get pids [base, base + 1, base + k + 2, base + k + 1]) (\<lambda>elpids.
        Inr (add_element2d 1 elpids m))
      else
        bind_err (pick get pids [base, base + 1, base + k + 1]) (\<lambda>elpids1.
        bind_err (pick get pids [base + 1, base + k + 2, base + k + 1]) (\<lambda>elpids2.
        Inr (add_element2d 1 elpids2 (add_element2d 1 elpids1 m))))) =
     Inr (m\<lparr>elements2d := elements2d m @ grid_cell quads k base\<rparr>)"
proof -
  have "pick get pids [base, base + 1, base + k + 2, base + k + 1] =
      Inr [base, base + 1, base + k + 2, base + k + 1]"
    using assms(2-) by (intro pick_in_range [where n = n] get) simp_all
  moreover have "pick get pids [base, base + 1, base + k + 1] = Inr [base, base + 1, base + k + 1]"
    using assms(2-) by (intro pick_in_range [where n = n] get) simp_all
  moreover have "pick get pids [base + 1, base + k + 2, base + k + 1] =
      Inr [base + 1, base + k + 2, base + k + 1]"
    using assms(2-) by (intro pick_in_range [where n = n] get) simp_all
  ultimately show ?thesis
    by (simp add: bind_err_Inr grid_cell_def add_element2d_def)
qed

lemma upper_faces_eq:
  assumes get: "\<And>p. 0 \<le> p \<Longrightarrow> p < n \<Longrightarrow> get pids p = Inr p"
    and "0 \<le> nx1" and "(ny1 + 1) * (nx1 + 1) \<le> n"
  shows "upper_faces get quads nx1 ny1 pids m =
     Inr (m\<lparr>elements2d := elements2d m @ upper_face_list quads nx1 ny1\<rparr>)"
proof -
  have cell: "upper_cell get quads nx1 pids i j m =
      Inr (m\<lparr>elements2d := elements2d m @ grid_cell quads nx1 (i * (nx1 + 1) + j)\<rparr>)"
    if "i \<in> set (range_py 0 ny1)" and "j \<in> set (range_py 0 nx1)" for i j m
  proof -
    have ij: "0 \<le> i" "i < ny1" "0 \<le> j" "j < nx1"
      using that by (simp_all add: set_range_py)
    have "0 \<le> i * (nx1 + 1) + j"
      using ij by (intro grid_index_bound(1) [where r = ny1]) simp_all
    moreover have "(i + 1) * (nx1 + 1) + (j + 1) < (ny1 + 1) * (nx1 + 1)"
      using ij by (intro grid_index_bound(2)) simp_all
    then have "i * (nx1 + 1) + j + nx1 + 2 < n"
      using assms(3) by (simp add: algebra_simps)
    ultimately show ?thesis
      unfolding upper_cell_def Let_def using assms(2)
      by (intro grid_cell_eq [where n = n] get) simp_all
  qed
  have row: "for_each (range_py 0 nx1) (\<lambda>j. upper_cell get quads nx1 pids i j) m =
      Inr (m\<lparr>elements2d := elements2d m @
        concat (map (\<lambda>j. grid_cell quads nx1 (i * (nx1 + 1) + j)) (range_py 0 nx1))\<rparr>)"
    if "i \<in> set (range_py 0 ny1)" for i m
    by (rule for_each_act [where act = "\<lambda>es m. m\<lparr>elements2d := elements2d m @ es\<rparr>"])
      (simp_all add: cell that)
  show ?thesis
    unfolding upper_faces_def upper_face_list_def
    by (rule for_each_act [where act = "\<lambda>es m. m\<lparr>elements2d := elements2d m @ es\<rparr>"])
      (simp_all add: row)
qed

lemma lower_faces_eq:
  assumes get: "\<And>p. 0 \<le> p \<Longrightarrow> p < n \<Longrightarrow> get pids p = Inr p"
    and "0 \<le> nx2" and "0 \<le> base1" and "base1 + ny2 * (nx2 + 1) \<le> n"
    and "base1 = (ny1 + 1) * (nx1 + 1)"
  shows "lower_faces get quads nx2 ny2 base1 pids m =
     Inr (m\<lparr>elements2d := elements2d m @ lower_face_list quads nx1 ny1 nx2 ny2\<rparr>)"
proof -
  have cell: "lower_cell get quads nx2 base1 pids i j m =
      Inr (m\<lparr>elements2d := elements2d m @ grid_cell quads nx2 (base1 + (i - 1) * (nx2 + 1) + j)\<rparr>)"
    if "i \<in> set (range_py 1 ny2)" and "j \<in> set (range_py 0 nx2)" for i j m
  proof -
    have ij: "1 \<le> i" "i < ny2" "0 \<le> j" "j < nx2"
      using that by (simp_all add: set_range_py)
    have "0 \<le> (i - 1) * (nx2 + 1) + j"
      using ij by (intro grid_index_bound(1) [where r = ny2]) simp_all
    then have "0 \<le> base1 + (i - 1) * (nx2 + 1) + j"
      using assms(3) by simp
    moreover have "i * (nx2 + 1) + (j + 1) < ny2 * (nx2 + 1)"
      using ij by (intro grid_index_bound(2)) simp_all
    then have "base1 + (i - 1) * (nx2 + 1) + j + nx2 + 2 < n"
      using assms(4) by (simp add: algebra_simps)
    ultimately show ?thesis
      unfolding lower_cell_def Let_def using assms(2)
      by (intro grid_cell_eq [where n = n] get) simp_all
  qed
  have row: "for_each (range_py 0 nx2) (\<lambda>j. lower_cell get quads nx2 base1 pids i j) m =
      Inr (m\<lparr>elements2d := elements2d m @
        concat (map (\<lambda>j. grid_cell quads nx2 (base1 + (i - 1) * (nx2 + 1) + j)) (range_py 0 nx2))\<rparr>)"
    if "i \<in> set (range_py 1 ny2)" for i m
    by (rule for_each_act [where act = "\<lambda>es m. m\<lparr>elements2d := elements2d m @ es\<rparr>"])
      (simp_all add: cell that)
  show ?thesis
    unfolding lower_faces_def lower_face_list_def assms(5) [symmetric]
    by (rule for_each_act [where act = "\<lambda>es m. m\<lparr>elements2d := elements2d m @ es\<rparr>"])
      (simp_all add: row)
qed

lemma connector_faces_eq:
  assumes get: "\<And>p. 0 \<le> p \<Longrightarrow> p < n \<Longrightarrow> get pids p = Inr p"
    and "1 \<le> nx1" and "1 \<le> ny1" and "base1 + nx1 < n"
    and "base1 = (ny1 + 1) * (nx1 + 1)"
  shows "connector_faces get quads nx1 ny1 base1 pids m =
     Inr (m\<lparr>elements2d := elements2d m @ connector_face_list quads nx1 ny1\<rparr>)"
proof -
  have cell: "connector_cell get quads nx1 ny1 base1 pids j m =
      Inr (m\<lparr>elements2d := elements2d m @
        (if quads then
           [(1, [int_half ny1 * (nx1 + 1) + j, int_half ny1 * (nx1 + 1) + j + 1,
                 base1 + j + 1, base1 + j])]
         else grid_cell False nx1 (int_half ny1 * (nx1 + 1) + j))\<rparr>)"
    if "j \<in> set (range_py 0 nx1)" for j m
  proof -
    have j: "0 \<le> j" "j < nx1"
      using that by (simp_all add: set_range_py)
    have h: "0 \<le> int_half ny1" "int_half ny1 < ny1"
      using assms(3) by (rule int_half_bounds)+
    have lo: "0 \<le> int_half ny1 * (nx1 + 1) + j"
      using j h by (intro grid_index_bound(1) [where r = ny1]) simp_all
    have "(int_half ny1 + 1) * (nx1 + 1) + (j + 1) < (ny1 + 1) * (nx1 + 1)"
      using j h by (intro grid_index_bound(2)) simp_all
    then have hi: "int_half ny1 * (nx1 + 1) + j + nx1 + 2 < base1"
      by (simp add: algebra_simps assms(5))
    have hi': "int_half ny1 * (nx1 + 1) + j + nx1 + 2 < n"
      using hi assms(4) assms(2) by simp
    show ?thesis
    proof (cases quads)
      case True
      have "pick get pids [int_half ny1 * (nx1 + 1) + j, int_half ny1 * (nx1 + 1) + j + 1,
            base1 + j + 1, base1 + j] =
          Inr [int_half ny1 * (nx1 + 1) + j, int_half ny1 * (nx1 + 1) + j + 1,
            base1 + j + 1, base1 + j]"
        using lo hi hi' j assms(2,4) by (intro pick_in_range [where n = n] get) simp_all
      then show ?thesis
        using True by (simp add: connector_cell_def Let_def bind_err_Inr add_element2d_def)
    next
      case False
      have "pick get pids [int_half ny1 * (nx1 + 1) + j, int_half ny1 * (nx1 + 1) + j + 1,
            int_half ny1 * (nx1 + 1) + j + nx1 + 1] =
          Inr [int_half ny1 * (nx1 + 1) + j, int_half ny1 * (nx1 + 1) + j + 1,
            int_half ny1 * (nx1 + 1) + j + nx1 + 1]"
        using lo hi' assms(2) by (intro pick_in_range [where n = n] get) simp_all
      moreover have "pick get pids [int_half ny1 * (nx1 + 1) + j + 1,
            int_half ny1 * (nx1 + 1) + j + nx1 + 2, int_half ny1 * (nx1 + 1) + j + nx1 + 1] =
          Inr [int_half ny1 * (nx1 + 1) + j + 1,
            int_half ny1 * (nx1 + 1) + j + nx1 + 2, int_half ny1 * (nx1 + 1) + j + nx1 + 1]"
        using lo hi' assms(2) by (intro pick_in_range [where n = n] get) simp_all
      ultimately show ?thesis
        using False
        by (simp add: connector_cell_def Let_def bind_err_Inr add_element2d_def grid_cell_def)
    qed
  qed
  show ?thesis
    unfolding connector_faces_def connector_face_list_def assms(5) [symmetric]
    by (rule for_each_act [where act = "\<lambda>es m. m\<lparr>elements2d := elements2d m @ es\<rparr>"])
      (simp_all add: cell)
qed


lemma segment_loop:
  assumes get: "\<And>p. 0 \<le> p \<Longrightarrow> p < n \<Longrightarrow> get pids p = Inr p"
    and range: "\<And>i. i \<in> set xs \<Longrightarrow> 0 \<le> a i \<and> a i < n \<and> 0 \<le> b i \<and> b i < n"
  shows "for_each xs (\<lambda>i. segment get pids (a i) (b i) tag) m =
     Inr (m\<lparr>elements1d := elements1d m @ map (\<lambda>i. ([a i, b i], tag)) xs\<rparr>)"
proof -
  have one: "segment get pids (a i) (b i) tag m =
      Inr (m\<lparr>elements1d := elements1d m @ [([a i, b i], tag)]\<rparr>)" if "i \<in> set xs" for i m
  proof -
    have "pick get pids [a i, b i] = Inr [a i, b i]"
      using range [OF that] by (intro pick_in_range [where n = n] get) simp_all
    then show ?thesis
      by (simp add: segment_def bind_err_Inr add_element1d_def)
  qed
  have "for_each xs (\<lambda>i. segment get pids (a i) (b i) tag) m =
      Inr (m\<lparr>elements1d := elements1d m @ concat (map (\<lambda>i. [([a i, b i], tag)]) xs)\<rparr>)"
    by (rule for_each_act [where act = "\<lambda>es m. m\<lparr>elements1d := elements1d m @ es\<rparr>"])
      (simp_all add: one)
  then show ?thesis
    by (simp add: concat_map_singleton)
qed

lemma segment_one:
  assumes get: "\<And>p. 0 \<le> p \<Longrightarrow> p < n \<Longrightarrow> get pids p = Inr p"
    and "0 \<le> a" and "a < n" and "0 \<le> b" and "b < n"
  shows "segment get pids a b tag m = Inr (m\<lparr>elements1d := elements1d m @ [([a, b], tag)]\<rparr>)"
proof -
  have "pick get pids [a, b] = Inr [a, b]"
    using assms(2-) by (intro pick_in_range [where n = n] get) simp_all
  then show ?thesis
    by (simp add: segment_def bind_err_Inr add_element1d_def)
qed

lemma boundary_segments_eq:
  assumes get: "\<And>p. 0 \<le> p \<Longrightarrow> p < n \<Longrightarrow> get pids p = Inr p"
    and pos: "1 \<le> nx1" "1 \<le> ny1" "1 \<le> nx2" "1 \<le> ny2"
    and base1: "base1 = (ny1 + 1) * (nx1 + 1)"
    and n: "n = base1 + ny2 * (nx2 + 1)"
    and fit: "nx1 < ny2 * (nx2 + 1)"
  shows "boundary_segments get nx1 ny1 nx2 ny2 base1 pids m =
     Inr (m\<lparr>elements1d := elements1d m @ segment_list nx1 ny1 nx2 ny2\<rparr>)"
proof -
  define seam where "seam = int_half ny1 * (nx1 + 1)"
  have h: "0 \<le> int_half ny1" "int_half ny1 < ny1"
    using pos(2) by (rule int_half_bounds)+
  have up: "0 \<le> i * (nx1 + 1) + j \<and> i * (nx1 + 1) + j < n"
    if "0 \<le> i" "i \<le> ny1" "0 \<le> j" "j \<le> nx1" for i j
  proof -
    have "0 \<le> i * (nx1 + 1) + j" "i * (nx1 + 1) + j < (ny1 + 1) * (nx1 + 1)"
      using that by (intro grid_index_bound [where r = "ny1 + 1"]; simp)+
    moreover have "0 \<le> ny2 * (nx2 + 1)"
      using pos by simp
    ultimately show ?thesis
      by (simp add: n base1)
  qed
  have lo: "0 \<le> i * (nx2 + 1) + j + base1 \<and> i * (nx2 + 1) + j + base1 < n"
    if "0 \<le> i" "i < ny2" "0 \<le> j" "j \<le> nx2" for i j
  proof -
    have "0 \<le> i * (nx2 + 1) + j" "i * (nx2 + 1) + j < ny2 * (nx2 + 1)"
      using that by (intro grid_index_bound [where r = ny2]; simp)+
    moreover have "0 \<le> base1"
      using pos by (simp add: base1)
    ultimately show ?thesis
      by (simp add: n)
  qed
  have t1: "for_each (range_py 0 nx1) (\<lambda>i. segment get pids i (i + 1) 1) m =
      Inr (m\<lparr>elements1d := elements1d m @ map (\<lambda>i. ([i, i + 1], 1)) (range_py 0 nx1)\<rparr>)" for m
  proof (rule segment_loop [where n = n and get = get and pids = pids, OF get])
    fix i assume "i \<in> set (range_py 0 nx1)"
    then have "0 \<le> i" "i < nx1" by (simp_all add: set_range_py)
    then show "0 \<le> i \<and> i < n \<and> 0 \<le> i + 1 \<and> i + 1 < n"
      using up [of 0 i] up [of 0 "i + 1"] pos by simp
  qed
  have t2: "for_each (range_py 0 ny1) (\<lambda>i.
        segment get pids (i * (nx1 + 1) + nx1) ((i + 1) * (nx1 + 1) + nx1) 2) m =
      Inr (m\<lparr>elements1d := elements1d m @
        map (\<lambda>i. ([i * (nx1 + 1) + nx1, (i + 1) * (nx1 + 1) + nx1], 2)) (range_py 0 ny1)\<rparr>)" for m
  proof (rule segment_loop [where n = n and get = get and pids = pids, OF get])
    fix i assume "i \<in> set (range_py 0 ny1)"
    then have "0 \<le> i" "i < ny1" by (simp_all add: set_range_py)
    then show "0 \<le> i * (nx1 + 1) + nx1 \<and> i * (nx1 + 1) + nx1 < n \<and>
        0 \<le> (i + 1) * (nx1 + 1) + nx1 \<and> (i + 1) * (nx1 + 1) + nx1 < n"
      using up [of i nx1] up [of "i + 1" nx1] pos by simp
  qed
  have t3: "for_each (range_py 0 nx1) (\<lambda>i.
        segment get pids (ny1 * (nx1 + 1) + i + 1) (ny1 * (nx1 + 1) + i) 3) m =
      Inr (m\<lparr>elements1d := elements1d m @
        map (\<lambda>i. ([ny1 * (nx1 + 1) + i + 1, ny1 * (nx1 + 1) + i], 3)) (range_py 0 nx1)\<rparr>)" for m
  proof (rule segment_loop [where n = n and get = get and pids = pids, OF get])
    fix i assume "i \<in> set (range_py 0 nx1)"
    then have "0 \<le> i" "i < nx1" by (simp_all add: set_range_py)
    then show "0 \<le> ny1 * (nx1 + 1) + i + 1 \<and> ny1 * (nx1 + 1) + i + 1 < n \<and>
        0 \<le> ny1 * (nx1 + 1) + i \<and> ny1 * (nx1 + 1) + i < n"
      using up [of ny1 i] up [of ny1 "i + 1"] pos by (simp add: add.assoc)
  qed
  have t4: "for_each (range_py 0 ny1) (\<lambda>i.
        segment get pids ((i + 1) * (nx1 + 1)) (i * (nx1 + 1)) 4) m =
      Inr (m\<lparr>elements1d := elements1d m @
        map (\<lambda>i. ([(i + 1) * (nx1 + 1), i * (nx1 + 1)], 4)) (range_py 0 ny1)\<rparr>)" for m
  proof (rule segment_loop [where n = n and get = get and pids = pids, OF get])
    fix i assume "i \<in> set (range_py 0 ny1)"
    then have "0 \<le> i" "i < ny1" by (simp_all add: set_range_py)
    then show "0 \<le> (i + 1) * (nx1 + 1) \<and> (i + 1) * (nx1 + 1) < n \<and>
        0 \<le> i * (nx1 + 1) \<and> i * (nx1 + 1) < n"
      using up [of i 0] up [of "i + 1" 0] pos by simp
  qed
  have seam_lt: "0 \<le> seam" "seam + nx1 < base1"
  proof -
    have "0 \<le> int_half ny1 * (nx1 + 1) + 0"
      using h pos by (intro grid_index_bound(1) [where r = ny1]) simp_all
    then show "0 \<le> seam" by (simp add: seam_def)
    have "int_half ny1 * (nx1 + 1) + nx1 < (ny1 + 1) * (nx1 + 1)"
      using h pos by (intro grid_index_bound(2)) simp_all
    then show "seam + nx1 < base1" by (simp add: seam_def base1)
  qed
  have lower_size: "nx2 < ny2 * (nx2 + 1)"
    using grid_index_bound(2) [of 0 ny2 nx2 nx2] pos by simp
  have t5: "for_each (range_py 0 nx2) (\<lambda>i. segment get pids (seam + i) (seam + i + 1) 5) m =
      Inr (m\<lparr>elements1d := elements1d m @
        map (\<lambda>i. ([seam + i, seam + i + 1], 5)) (range_py 0 nx2)\<rparr>)" for m
  proof (rule segment_loop [where n = n and get = get and pids = pids, OF get])
    fix i assume "i \<in> set (range_py 0 nx2)"
    then have "0 \<le> i" "i < nx2" by (simp_all add: set_range_py)
    then show "0 \<le> seam + i \<and> seam + i < n \<and> 0 \<le> seam + i + 1 \<and> seam + i + 1 < n"
      using seam_lt lower_size pos by (simp add: n)
  qed
  have t6a: "segment get pids seam base1 6 m =
      Inr (m\<lparr>elements1d := elements1d m @ [([seam, base1], 6)]\<rparr>)" for m
    using seam_lt lower_size pos by (intro segment_one [where n = n] get) (simp_all add: n)
  have t6: "for_each (range_py 0 (ny2 - 1)) (\<lambda>i.
        segment get pids (i * (nx2 + 1) + base1) ((i + 1) * (nx2 + 1) + base1) 6) m =
      Inr (m\<lparr>elements1d := elements1d m @
        map (\<lambda>i. ([i * (nx2 + 1) + base1, (i + 1) * (nx2 + 1) + base1], 6))
          (range_py 0 (ny2 - 1))\<rparr>)" for m
  proof (rule segment_loop [where n = n and get = get and pids = pids, OF get])
    fix i assume "i \<in> set (range_py 0 (ny2 - 1))"
    then have "0 \<le> i" "i < ny2 - 1" by (simp_all add: set_range_py)
    then show "0 \<le> i * (nx2 + 1) + base1 \<and> i * (nx2 + 1) + base1 < n \<and>
        0 \<le> (i + 1) * (nx2 + 1) + base1 \<and> (i + 1) * (nx2 + 1) + base1 < n"
      using lo [of i 0] lo [of "i + 1" 0] pos by simp
  qed
  have t7: "for_each (range_py 0 nx2) (\<lambda>i.
        segment get pids ((ny2 - 1) * (nx2 + 1) + i + base1)
          ((ny2 - 1) * (nx2 + 1) + i + 1 + base1) 7) m =
      Inr (m\<lparr>elements1d := elements1d m @
        map (\<lambda>i. ([(ny2 - 1) * (nx2 + 1) + i + base1, (ny2 - 1) * (nx2 + 1) + i + 1 + base1], 7))
          (range_py 0 nx2)\<rparr>)" for m
  proof (rule segment_loop [where n = n and get = get and pids = pids, OF get])
    fix i assume "i \<in> set (range_py 0 nx2)"
    then have "0 \<le> i" "i < nx2" by (simp_all add: set_range_py)
    then show "0 \<le> (ny2 - 1) * (nx2 + 1) + i + base1 \<and> (ny2 - 1) * (nx2 + 1) + i + base1 < n \<and>
        0 \<le> (ny2 - 1) * (nx2 + 1) + i + 1 + base1 \<and> (ny2 - 1) * (nx2 + 1) + i + 1 + base1 < n"
      using lo [of "ny2 - 1" i] lo [of "ny2 - 1" "i + 1"] pos by (simp add: add.assoc)
  qed
  have t8: "for_each (range_py 0 (ny2 - 1)) (\<lambda>i.
        segment get pids ((i + 1) * (nx2 + 1) + nx2 + base1) (i * (nx2 + 1) + nx2 + base1) 8) m =
      Inr (m\<lparr>elements1d := elements1d m @
        map (\<lambda>i. ([(i + 1) * (nx2 + 1) + nx2 + base1, i * (nx2 + 1) + nx2 + base1], 8))
          (range_py 0 (ny2 - 1))\<rparr>)" for m
  proof (rule segment_loop [where n = n and get = get and pids = pids, OF get])
    fix i assume "i \<in> set (range_py 0 (ny2 - 1))"
    then have "0 \<le> i" "i < ny2 - 1" by (simp_all add: set_range_py)
    then show "0 \<le> (i + 1) * (nx2 + 1) + nx2 + base1 \<and> (i + 1) * (nx2 + 1) + nx2 + base1 < n \<and>
        0 \<le> i * (nx2 + 1) + nx2 + base1 \<and> i * (nx2 + 1) + nx2 + base1 < n"
      using lo [of i nx2] lo [of "i + 1" nx2] pos by simp
  qed
  have t8b: "segment get pids (base1 + nx1) (seam + nx1) 8 m =
      Inr (m\<lparr>elements1d := elements1d m @ [([base1 + nx1, seam + nx1], 8)]\<rparr>)" for m
    using seam_lt fit pos by (intro segment_one [where n = n] get) (simp_all add: n)
  show ?thesis
    unfolding boundary_segments_def seam_def [symmetric]
    by (simp add: t1 t2 t3 t4 t5 t6a t6 t7 t8 t8b bind_err_Inr segment_list_def tag_chain_def
        Let_def seam_def [symmetric] base1 [symmetric])
qed


lemma total_points:
  assumes "1 \<le> nx1" "1 \<le> ny1" "1 \<le> nx2" "1 \<le> ny2"
  shows "int (length (upper_grid nx1 ny1 @ lower_grid nx2 ny2 ratio)) =
     (ny1 + 1) * (nx1 + 1) + ny2 * (nx2 + 1)"
  using assms by (simp add: length_upper_grid length_lower_grid nat_mult_distrib)

lemma reading_result:
  assumes pos: "1 \<le> nx1" "1 \<le> ny1" "1 \<le> nx2" "1 \<le> ny2"
    and fit: "nx1 < ny2 * (nx2 + 1)"
    and get: "\<And>n p. 0 \<le> p \<Longrightarrow> p < n \<Longrightarrow> get [0..n - 1] p = Inr p"
  shows "MakeTStructureMesh_reading get quads nx1 ny1 nx2 ny2 ratio =
     Inr (built_mesh quads nx1 ny1 nx2 ny2 ratio)"
proof -
  define n where "n = (ny1 + 1) * (nx1 + 1) + ny2 * (nx2 + 1)"
  define pids where "pids = [0..n - 1]"
  define base1 where "base1 = (ny1 + 1) * (nx1 + 1)"
  have get': "\<And>p. 0 \<le> p \<Longrightarrow> p < n \<Longrightarrow> get pids p = Inr p"
    unfolding pids_def by (rule get)
  have base1_pos: "0 \<le> base1"
    using pos by (simp add: base1_def)
  have n_eq: "n = base1 + ny2 * (nx2 + 1)"
    by (simp add: n_def base1_def)
  have lower_pos: "0 \<le> ny2 * (nx2 + 1)"
    using pos by simp
  have pts: "make_points nx1 ny1 nx2 ny2 ratio (Mesh\<lparr>dim := 3\<rparr>, []) =
      Inr (Mesh\<lparr>dim := 3, points := upper_grid nx1 ny1 @ lower_grid nx2 ny2 ratio\<rparr>, pids)"
    using pos total_points [OF pos, of ratio] by (simp add: make_points_eq pids_def n_def)
  have uf: "upper_faces get quads nx1 ny1 pids m =
      Inr (m\<lparr>elements2d := elements2d m @ upper_face_list quads nx1 ny1\<rparr>)" for m
    using pos lower_pos by (intro upper_faces_eq [where n = n] get') (simp_all add: n_def)
  have cf: "connector_faces get quads nx1 ny1 base1 pids m =
      Inr (m\<lparr>elements2d := elements2d m @ connector_face_list quads nx1 ny1\<rparr>)" for m
    using pos fit by (intro connector_faces_eq [where n = n] get') (simp_all add: n_eq base1_def)
  have lf: "lower_faces get quads nx2 ny2 base1 pids m =
      Inr (m\<lparr>elements2d := elements2d m @ lower_face_list quads nx1 ny1 nx2 ny2\<rparr>)" for m
    using pos base1_pos by (intro lower_faces_eq [where n = n] get') (simp_all add: n_eq base1_def)
  have bs: "boundary_segments get nx1 ny1 nx2 ny2 base1 pids m =
      Inr (m\<lparr>elements1d := elements1d m @ segment_list nx1 ny1 nx2 ny2\<rparr>)" for m
    using pos fit by (intro boundary_segments_eq [where n = n] get') (simp_all add: n_eq base1_def)
  show ?thesis
    unfolding MakeTStructureMesh_reading_def pts bind_err_Inr base1_def [symmetric] Let_def
    by (simp add: uf cf lf bs bind_err_Inr built_mesh_def set_names_def SetCD2Name_def
        add_facedescriptor_def Mesh_def name_list_def)
qed

lemma MakeTStructureMesh_result:
  assumes "1 \<le> nx1" "1 \<le> ny1" "1 \<le> nx2" "1 \<le> ny2" and "nx1 < ny2 * (nx2 + 1)"
  shows "MakeTStructureMesh quads nx1 ny1 nx2 ny2 ratio =
     Inr (built_mesh quads nx1 ny1 nx2 ny2 ratio)"
  unfolding MakeTStructureMesh_def using assms
  by (rule reading_result) (simp add: getitem_upto)

subsection \<open>The element loops leave the points alone\<close>

lemma for_each_inv:
  assumes step: "\<And>x s s'. x \<in> set xs \<Longrightarrow> P s \<Longrightarrow> body x s = Inr s' \<Longrightarrow> P s'"
    and "P s" and "for_each xs body s = Inr s'"
  shows "P s'"
  using assms
proof (induction xs arbitrary: s)
  case Nil
  then show ?case by simp
next
  case (Cons x xs)
  from Cons.prems(3) obtain s1 where s1: "body x s = Inr s1" and rest: "for_each xs body s1 = Inr s'"
    by (auto split: sum.splits)
  have "P s1"
    using Cons.prems(1) [of x s s1] Cons.prems(2) s1 by simp
  show ?case
  proof (rule Cons.IH [OF _ \<open>P s1\<close> rest])
    fix y t t'
    assume "y \<in> set xs" "P t" "body y t = Inr t'"
    then show "P t'"
      using Cons.prems(1) [of y t t'] by simp
  qed
qed

lemma bind_err_Inr_iff:
  "bind_err r f = Inr y \<longleftrightarrow> (\<exists>v. r = Inr v \<and> f v = Inr y)"
  by (cases r) (simp_all add: bind_err_def)

lemma upper_cell_points:
  "upper_cell get quads nx1 pids i j m = Inr m' \<Longrightarrow> points m' = points m"
  by (auto simp: upper_cell_def Let_def bind_err_Inr_iff add_element2d_def split: if_splits)

lemma connector_cell_points:
  "connector_cell get quads nx1 ny1 base1 pids j m = Inr m' \<Longrightarrow> points m' = points m"
  by (auto simp: connector_cell_def Let_def bind_err_Inr_iff add_element2d_def split: if_splits)

lemma lower_cell_points:
  "lower_cell get quads nx2 base1 pids i j m = Inr m' \<Longrightarrow> points m' = points m"
  by (auto simp: lower_cell_def Let_def bind_err_Inr_iff add_element2d_def split: if_splits)

lemma segment_points:
  "segment get pids a b tag m = Inr m' \<Longrightarrow> points m' = points m"
  by (auto simp: segment_def bind_err_Inr_iff add_element1d_def)

lemma upper_faces_points:
  assumes "upper_faces get quads nx1 ny1 pids m = Inr m'"
  shows "points m' = points m"
proof -
  have row: "points m2 = ps"
    if "points m1 = ps" and "for_each (range_py 0 nx1) (\<lambda>j. upper_cell get quads nx1 pids i j) m1 = Inr m2"
    for i m1 m2 ps
    using that(2) by (rule for_each_inv [where P = "\<lambda>m. points m = ps", rotated 2])
      (auto dest: upper_cell_points simp: that(1))
  show ?thesis
    using assms unfolding upper_faces_def
    by (rule for_each_inv [where P = "\<lambda>m'. points m' = points m", rotated 2]) (auto dest: row)
qed

lemma connector_faces_points:
  assumes "connector_faces get quads nx1 ny1 base1 pids m = Inr m'"
  shows "points m' = points m"
  using assms unfolding connector_faces_def
  by (rule for_each_inv [where P = "\<lambda>m'. points m' = points m", rotated 2])
    (auto dest: connector_cell_points)

lemma lower_faces_points:
  assumes "lower_faces get quads nx2 ny2 base1 pids m = Inr m'"
  shows "points m' = points m"
proof -
  have row: "points m2 = ps"
    if "points m1 = ps" and "for_each (range_py 0 nx2) (\<lambda>j. lower_cell get quads nx2 base1 pids i j) m1 = Inr m2"
    for i m1 m2 ps
    using that(2) by (rule for_each_inv [where P = "\<lambda>m. points m = ps", rotated 2])
      (auto dest: lower_cell_points simp: that(1))
  show ?thesis
    using assms unfolding lower_faces_def
    by (rule for_each_inv [where P = "\<lambda>m'. points m' = points m", rotated 2]) (auto dest: row)
qed

lemma segment_loop_points:
  assumes "for_each xs (\<lambda>i. segment get pids (a i) (b i) tag) m = Inr m'"
  shows "points m' = points m"
  using assms
  by (rule for_each_inv [where P = "\<lambda>m'. points m' = points m", rotated 2])
    (auto dest: segment_points)

lemma boundary_segments_points:
  assumes "boundary_segments get nx1 ny1 nx2 ny2 base1 pids m = Inr m'"
  shows "points m' = points m"
  using assms unfolding boundary_segments_def bind_err_Inr_iff
  by (auto dest!: segment_loop_points segment_points)

lemma reading_points:
  assumes "MakeTStructureMesh_reading get quads nx1 ny1 nx2 ny2 ratio = Inr m"
  shows "\<exists>m0 pids. make_points nx1 ny1 nx2 ny2 ratio (Mesh\<lparr>dim := 3\<rparr>, []) = Inr (m0, pids) \<and>
    points m = points m0"
  using assms unfolding MakeTStructureMesh_reading_def Let_def
  by (auto dest!: upper_faces_points connector_faces_points lower_faces_points
      boundary_segments_points
      simp: bind_err_Inr_iff set_names_def SetCD2Name_def add_facedescriptor_def)

subsection \<open>Sizes and positions in the closed forms\<close>

lemma filter_tagged:
  "filter (\<lambda>e. snd e = t) (map (\<lambda>vs. (vs, t')) xs) = (if t' = t then map (\<lambda>vs. (vs, t')) xs else [])"
  by (induction xs) simp_all

lemma segments_of_built:
  assumes "t \<in> {1, 2, 3, 4, 5, 6, 7, 8}"
  shows "segments_of t (built_mesh quads nx1 ny1 nx2 ny2 ratio) = tag_chain t nx1 ny1 nx2 ny2"
  using assms
  by (auto simp add: segments_of_def built_mesh_def segment_list_def filter_tagged comp_def)

lemma length_tag_chain:
  assumes "1 \<le> nx1" "1 \<le> ny1" "1 \<le> nx2" "1 \<le> ny2"
  shows "map (\<lambda>t. int (length (tag_chain t nx1 ny1 nx2 ny2))) [1, 2, 3, 4, 5, 6, 7, 8] =
     [nx1, ny1, nx1, ny1, nx2, ny2, nx2, ny2]"
  using assms by (simp add: tag_chain_def Let_def length_range_py)

lemma length_segment_list:
  assumes "1 \<le> nx1" "1 \<le> ny1" "1 \<le> nx2" "1 \<le> ny2"
  shows "int (length (segment_list nx1 ny1 nx2 ny2)) = 2 * nx1 + 2 * ny1 + 2 * nx2 + 2 * ny2"
  using assms by (simp add: segment_list_def tag_chain_def Let_def length_range_py)

lemma length_grid_cell: "length (grid_cell quads n base) = (if quads then 1 else 2)"
  by (simp add: grid_cell_def)

lemma length_upper_face_list:
  "length (upper_face_list quads nx1 ny1) = nat ny1 * (nat nx1 * (if quads then 1 else 2))"
  unfolding upper_face_list_def
  by (subst length_concat_rows [where c = "nat nx1 * (if quads then 1 else 2)"])
    (simp_all add: length_range_py length_concat_rows [where c = "if quads then 1 else 2"]
      length_grid_cell)

lemma length_connector_face_list:
  "length (connector_face_list quads nx1 ny1) = nat nx1 * (if quads then 1 else 2)"
  unfolding connector_face_list_def
  by (subst length_concat_rows [where c = "if quads then 1 else 2"])
    (simp_all add: length_range_py length_grid_cell)

lemma length_lower_face_list:
  "length (lower_face_list quads nx1 ny1 nx2 ny2) =
     nat (ny2 - 1) * (nat nx2 * (if quads then 1 else 2))"
  unfolding lower_face_list_def
  by (subst length_concat_rows [where c = "nat nx2 * (if quads then 1 else 2)"])
    (simp_all add: length_range_py length_concat_rows [where c = "if quads then 1 else 2"]
      length_grid_cell)

lemma face_count:
  assumes "1 \<le> nx1" "1 \<le> ny1" "1 \<le> nx2" "1 \<le> ny2"
  shows "int (length (elements2d (built_mesh quads nx1 ny1 nx2 ny2 ratio))) =
     (if quads then 1 else 2) * (nx1 * ny1 + nx1 + nx2 * (ny2 - 1))"
  using assms
  by (simp add: built_mesh_def length_upper_face_list length_connector_face_list
      length_lower_face_list nat_mult_distrib algebra_simps)

lemma upper_grid_box:
  assumes "1 \<le> nx1" "1 \<le> ny1" and "p \<in> set (upper_grid nx1 ny1)"
  shows "0 \<le> fst p \<and> fst p \<le> 1 \<and> 0 \<le> fst (snd p) \<and> fst (snd p) \<le> 1 \<and> snd (snd p) = 0"
  using assms by (auto simp: upper_grid_def set_range_py)

lemma lower_grid_box:
  assumes "1 \<le> nx2" "1 \<le> ny2" and "p \<in> set (lower_grid nx2 ny2 ratio)"
  shows "0 \<le> fst p \<and> fst p \<le> 1 \<and> fst (snd p) = ratio \<and> - 1 \<le> snd (snd p) \<and> snd (snd p) < 0"
  using assms by (auto simp: lower_grid_def set_range_py divide_less_0_iff)

lemma getitem_inside_Inr:
  "getitem_inside xs i = Inr v \<Longrightarrow> 0 \<le> i \<and> i < int (length xs) \<and> v = xs ! nat i"
  by (simp add: getitem_inside_def split: if_splits)

lemma nth_concat_rows:
  assumes "\<And>x. x \<in> set xs \<Longrightarrow> length (f x) = c" and "i < length xs" and "j < c"
  shows "concat (map f xs) ! (i * c + j) = f (xs ! i) ! j"
  using assms
proof (induction xs arbitrary: i)
  case Nil
  then show ?case by simp
next
  case (Cons x xs)
  show ?case
  proof (cases i)
    case 0
    then show ?thesis
      using Cons.prems by (simp add: nth_append)
  next
    case (Suc k)
    have "concat (map f xs) ! (k * c + j) = f (xs ! k) ! j"
      using Cons.prems Suc by (intro Cons.IH) simp_all
    then show ?thesis
      using Cons.prems Suc by (simp add: nth_append)
  qed
qed

lemma nat_grid_index:
  assumes "0 \<le> i" and "0 \<le> j" and "0 \<le> n"
  shows "nat (i * (n + 1) + j) = nat i * nat (n + 1) + nat j"
  using assms by (simp add: nat_add_distrib nat_mult_distrib)

lemma nth_range_py:
  assumes "a \<le> i" and "i < b"
  shows "range_py a b ! nat (i - a) = i"
  using assms by (simp add: range_py_def)

lemma nth_upper_grid:
  assumes "0 \<le> i" and "i \<le> ny1" and "0 \<le> j" and "j \<le> nx1"
  shows "upper_grid nx1 ny1 ! nat (i * (nx1 + 1) + j) =
     (real_of_int j / real_of_int nx1, real_of_int i / real_of_int ny1, 0)"
proof -
  have "upper_grid nx1 ny1 ! (nat i * nat (nx1 + 1) + nat j) =
      map (\<lambda>j. (real_of_int j / real_of_int nx1,
        real_of_int (range_py 0 (ny1 + 1) ! nat i) / real_of_int ny1, 0))
        (range_py 0 (nx1 + 1)) ! nat j"
    unfolding upper_grid_def using assms
    by (intro nth_concat_rows) (simp_all add: length_range_py)
  moreover have "range_py 0 (ny1 + 1) ! nat i = i"
    using nth_range_py [of 0 i "ny1 + 1"] assms by simp
  moreover have "range_py 0 (nx1 + 1) ! nat j = j"
    using nth_range_py [of 0 j "nx1 + 1"] assms by simp
  ultimately show ?thesis
    using assms by (simp add: nat_grid_index length_range_py)
qed

lemma nth_lower_grid:
  assumes "1 \<le> i" and "i \<le> ny2" and "0 \<le> j" and "j \<le> nx2"
  shows "lower_grid nx2 ny2 ratio ! nat ((i - 1) * (nx2 + 1) + j) =
     (real_of_int j / real_of_int nx2, ratio, real_of_int (- i) / real_of_int ny2)"
proof -
  have "lower_grid nx2 ny2 ratio ! (nat (i - 1) * nat (nx2 + 1) + nat j) =
      map (\<lambda>j. (real_of_int j / real_of_int nx2, ratio,
        real_of_int (- (range_py 1 (ny2 + 1) ! nat (i - 1))) / real_of_int ny2))
        (range_py 0 (nx2 + 1)) ! nat j"
    unfolding lower_grid_def using assms
    by (intro nth_concat_rows) (simp_all add: length_range_py)
  moreover have "range_py 1 (ny2 + 1) ! nat (i - 1) = i"
    using nth_range_py [of 1 i "ny2 + 1"] assms by simp
  moreover have "range_py 0 (nx2 + 1) ! nat j = j"
    using nth_range_py [of 0 j "nx2 + 1"] assms by simp
  ultimately show ?thesis
    using assms by (simp add: nat_grid_index length_range_py)
qed

lemma nth_upper_face_list:
  assumes "0 \<le> i" and "i < ny1" and "0 \<le> j" and "j < nx1"
  shows "upper_face_list False nx1 ny1 ! nat (2 * (i * nx1 + j)) =
       (1, [i * (nx1 + 1) + j, i * (nx1 + 1) + j + 1, i * (nx1 + 1) + j + nx1 + 1])"
    and "upper_face_list False nx1 ny1 ! nat (2 * (i * nx1 + j) + 1) =
       (1, [i * (nx1 + 1) + j + 1, i * (nx1 + 1) + j + nx1 + 2, i * (nx1 + 1) + j + nx1 + 1])"
proof -
  let ?row = "\<lambda>i. concat (map (\<lambda>j. grid_cell False nx1 (i * (nx1 + 1) + j)) (range_py 0 nx1))"
  have ri: "range_py 0 ny1 ! nat i = i" and rj: "range_py 0 nx1 ! nat j = j"
    using nth_range_py [of 0 i ny1] nth_range_py [of 0 j nx1] assms by simp_all
  have row_len: "length (?row k) = 2 * nat nx1" for k
    by (subst length_concat_rows [where c = 2]) (simp_all add: length_grid_cell length_range_py)
  have cell: "?row i ! (nat j * 2 + e) = grid_cell False nx1 (i * (nx1 + 1) + j) ! e" if "e < 2" for e
    using nth_concat_rows [where f = "\<lambda>j. grid_cell False nx1 (i * (nx1 + 1) + j)"
        and xs = "range_py 0 nx1" and c = 2 and i = "nat j" and j = e] assms that
    by (simp add: length_grid_cell length_range_py rj)
  have pick: "upper_face_list False nx1 ny1 ! (nat i * (2 * nat nx1) + (nat j * 2 + e)) =
      grid_cell False nx1 (i * (nx1 + 1) + j) ! e" if "e < 2" for e
  proof -
    have "nat j * 2 + e < 2 * nat nx1"
      using assms that by linarith
    then have "upper_face_list False nx1 ny1 ! (nat i * (2 * nat nx1) + (nat j * 2 + e)) =
        ?row (range_py 0 ny1 ! nat i) ! (nat j * 2 + e)"
      unfolding upper_face_list_def using assms
      by (intro nth_concat_rows row_len) (simp_all add: length_range_py)
    then show ?thesis
      using cell [OF that] by (simp add: ri)
  qed
  have ix: "nat (2 * (i * nx1 + j)) = nat i * (2 * nat nx1) + (nat j * 2 + 0)"
    "nat (2 * (i * nx1 + j) + 1) = nat i * (2 * nat nx1) + (nat j * 2 + 1)"
    using assms by (simp_all add: nat_add_distrib nat_mult_distrib)
  show "upper_face_list False nx1 ny1 ! nat (2 * (i * nx1 + j)) =
       (1, [i * (nx1 + 1) + j, i * (nx1 + 1) + j + 1, i * (nx1 + 1) + j + nx1 + 1])"
    unfolding ix using pick [of 0] by (simp add: grid_cell_def)
  show "upper_face_list False nx1 ny1 ! nat (2 * (i * nx1 + j) + 1) =
       (1, [i * (nx1 + 1) + j + 1, i * (nx1 + 1) + j + nx1 + 2, i * (nx1 + 1) + j + nx1 + 1])"
    unfolding ix using pick [of 1] by (simp add: grid_cell_def)
qed

lemma upper_face_index_bound:
  assumes "0 \<le> i" and "i < ny1" and "0 \<le> j" and "j < nx1"
  shows "nat (2 * (i * nx1 + j) + 1) < length (upper_face_list False nx1 ny1)"
proof -
  have "(i + 1) * nx1 \<le> ny1 * nx1"
    using assms by (intro mult_right_mono) simp_all
  then have "2 * (i * nx1 + j) + 1 < 2 * (ny1 * nx1)"
    using assms by (simp add: algebra_simps)
  moreover have "int (length (upper_face_list False nx1 ny1)) = 2 * (ny1 * nx1)"
    using assms by (simp add: length_upper_face_list nat_mult_distrib)
  moreover have "0 \<le> i * nx1"
    using assms by simp
  ultimately show ?thesis
    using assms by (simp add: nat_less_iff)
qed

subsection \<open>Walking a chain\<close>

lemma walk_forward:
  assumes "a \<le> b + 1"
  shows "walk (f a) (map (\<lambda>i. [f i, f (i + 1)]) [a..b]) = Some (map f [a..b + 1])"
  using assms
proof (induction a b rule: upto.induct)
  case (1 i j)
  show ?case
  proof (cases "i \<le> j")
    case True
    then have "walk (f (i + 1)) (map (\<lambda>i. [f i, f (i + 1)]) [i + 1..j]) = Some (map f [i + 1..j + 1])"
      by (intro "1.IH") simp_all
    then show ?thesis
      using True by (simp add: upto_rec1 [of i j] upto_rec1 [of i "j + 1"])
  next
    case False
    then have "i = j + 1"
      using "1.prems" by simp
    then show ?thesis
      by simp
  qed
qed

lemma walk_backward:
  assumes "a \<le> b + 1"
  shows "walk (f a) (map (\<lambda>i. [f (i + 1), f i]) [a..b]) = Some (map f [a..b + 1])"
  using assms
proof (induction a b rule: upto.induct)
  case (1 i j)
  show ?case
  proof (cases "i \<le> j")
    case True
    then have "walk (f (i + 1)) (map (\<lambda>i. [f (i + 1), f i]) [i + 1..j]) = Some (map f [i + 1..j + 1])"
      by (intro "1.IH") simp_all
    then show ?thesis
      using True by (simp add: upto_rec1 [of i j] upto_rec1 [of i "j + 1"])
  next
    case False
    then have "i = j + 1"
      using "1.prems" by simp
    then show ?thesis
      by simp
  qed
qed

lemma distinct_line:
  fixes c d :: int
  assumes "0 < c"
  shows "distinct (map (\<lambda>i. i * c + d) [a..b])"
  using assms by (simp add: distinct_map inj_on_def)

lemma is_chain_forward:
  assumes "a \<le> b" and "distinct (map f [a..b + 1])"
  shows "is_chain (map (\<lambda>i. [f i, f (i + 1)]) [a..b])"
proof -
  have "walk (f a) (map (\<lambda>i. [f i, f (i + 1)]) [a..b]) = Some (map f [a..b + 1])"
    using assms(1) by (intro walk_forward) simp
  moreover have "map (\<lambda>i. [f i, f (i + 1)]) [a..b] =
      [f a, f (a + 1)] # map (\<lambda>i. [f i, f (i + 1)]) [a + 1..b]"
    using assms(1) by (simp add: upto_rec1 [of a b])
  ultimately show ?thesis
    using assms(2) unfolding is_chain_def by (auto split: list.splits option.splits)
qed

lemma is_chain_backward:
  assumes "a \<le> b" and "distinct (map f [a..b + 1])"
  shows "is_chain (map (\<lambda>i. [f (i + 1), f i]) [a..b])"
proof -
  have "walk (f a) (map (\<lambda>i. [f (i + 1), f i]) [a..b]) = Some (map f [a..b + 1])"
    using assms(1) by (intro walk_backward) simp
  moreover have "map (\<lambda>i. [f (i + 1), f i]) [a..b] =
      [f (a + 1), f a] # map (\<lambda>i. [f (i + 1), f i]) [a + 1..b]"
    using assms(1) by (simp add: upto_rec1 [of a b])
  ultimately show ?thesis
    using assms(2) unfolding is_chain_def by (auto split: list.splits option.splits)
qed

lemma is_chain_lead_forward:
  assumes "a \<le> b + 1" and "distinct (p # map f [a..b + 1])"
  shows "is_chain ([p, f a] # map (\<lambda>i. [f i, f (i + 1)]) [a..b])"
proof -
  have "walk (f a) (map (\<lambda>i. [f i, f (i + 1)]) [a..b]) = Some (map f [a..b + 1])"
    using assms(1) by (rule walk_forward)
  then have "walk p ([p, f a] # map (\<lambda>i. [f i, f (i + 1)]) [a..b]) = Some (p # map f [a..b + 1])"
    by simp
  then show ?thesis
    using assms(2) unfolding is_chain_def by (auto split: option.splits)
qed

lemma is_chain_lead_backward:
  assumes "a \<le> b + 1" and "distinct (p # map f [a..b + 1])"
  shows "is_chain ([f a, p] # map (\<lambda>i. [f (i + 1), f i]) [a..b])"
proof -
  have "walk (f a) (map (\<lambda>i. [f (i + 1), f i]) [a..b]) = Some (map f [a..b + 1])"
    using assms(1) by (rule walk_backward)
  moreover have "p \<noteq> f a"
    using assms by (auto simp: upto_rec1 [of a "b + 1"])
  ultimately have "walk p ([f a, p] # map (\<lambda>i. [f (i + 1), f i]) [a..b]) =
      Some (p # map f [a..b + 1])"
    by simp
  then show ?thesis
    using assms(2) unfolding is_chain_def by (auto split: option.splits)
qed

lemma tag_chains:
  assumes pos: "1 \<le> nx1" "1 \<le> ny1" "1 \<le> nx2" "1 \<le> ny2"
  shows "is_chain (tag_chain 1 nx1 ny1 nx2 ny2)"
    and "is_chain (tag_chain 2 nx1 ny1 nx2 ny2)"
    and "is_chain (tag_chain 3 nx1 ny1 nx2 ny2)"
    and "is_chain (tag_chain 4 nx1 ny1 nx2 ny2)"
    and "is_chain (tag_chain 5 nx1 ny1 nx2 ny2)"
    and "is_chain (tag_chain 6 nx1 ny1 nx2 ny2)"
    and "is_chain (tag_chain 7 nx1 ny1 nx2 ny2)"
proof -
  define base1 where "base1 = (ny1 + 1) * (nx1 + 1)"
  define seam where "seam = int_half ny1 * (nx1 + 1)"
  have h: "0 \<le> int_half ny1" "int_half ny1 < ny1"
    using pos(2) by (rule int_half_bounds)+
  have seam_lt: "seam < base1"
    using grid_index_bound(2) [of "int_half ny1" "ny1 + 1" 0 nx1] h pos
    by (simp add: seam_def base1_def)
  have line: "distinct (map (\<lambda>i. i * 1 + d) [a..b])" for a b d :: int
    by (rule distinct_line) simp
  have t1: "tag_chain 1 nx1 ny1 nx2 ny2 = map (\<lambda>i. [(\<lambda>i. i) i, (\<lambda>i. i) (i + 1)]) [0..nx1 - 1]"
    by (simp add: tag_chain_def range_py_def Let_def)
  show "is_chain (tag_chain 1 nx1 ny1 nx2 ny2)"
    unfolding t1 using pos by (intro is_chain_forward) simp_all
  have t2: "tag_chain 2 nx1 ny1 nx2 ny2 =
      map (\<lambda>i. [(\<lambda>i. i * (nx1 + 1) + nx1) i, (\<lambda>i. i * (nx1 + 1) + nx1) (i + 1)]) [0..ny1 - 1]"
    by (simp add: tag_chain_def range_py_def Let_def)
  show "is_chain (tag_chain 2 nx1 ny1 nx2 ny2)"
    unfolding t2 using pos by (intro is_chain_forward distinct_line) simp_all
  have t3: "tag_chain 3 nx1 ny1 nx2 ny2 =
      map (\<lambda>i. [(\<lambda>i. i * 1 + ny1 * (nx1 + 1)) (i + 1), (\<lambda>i. i * 1 + ny1 * (nx1 + 1)) i]) [0..nx1 - 1]"
    by (simp add: tag_chain_def range_py_def Let_def algebra_simps)
  show "is_chain (tag_chain 3 nx1 ny1 nx2 ny2)"
    unfolding t3 using pos by (intro is_chain_backward distinct_line) simp_all
  have t4: "tag_chain 4 nx1 ny1 nx2 ny2 =
      map (\<lambda>i. [(\<lambda>i. i * (nx1 + 1) + 0) (i + 1), (\<lambda>i. i * (nx1 + 1) + 0) i]) [0..ny1 - 1]"
    by (simp add: tag_chain_def range_py_def Let_def)
  show "is_chain (tag_chain 4 nx1 ny1 nx2 ny2)"
    unfolding t4 using pos by (intro is_chain_backward distinct_line) simp_all
  have t5: "tag_chain 5 nx1 ny1 nx2 ny2 =
      map (\<lambda>i. [(\<lambda>i. i * 1 + seam) i, (\<lambda>i. i * 1 + seam) (i + 1)]) [0..nx2 - 1]"
    by (simp add: tag_chain_def range_py_def Let_def seam_def algebra_simps)
  show "is_chain (tag_chain 5 nx1 ny1 nx2 ny2)"
    unfolding t5 using pos by (intro is_chain_forward distinct_line) simp_all
  have t6: "tag_chain 6 nx1 ny1 nx2 ny2 =
      [seam, (\<lambda>i. i * (nx2 + 1) + base1) 0] #
      map (\<lambda>i. [(\<lambda>i. i * (nx2 + 1) + base1) i, (\<lambda>i. i * (nx2 + 1) + base1) (i + 1)])
        [0..ny2 - 1 - 1]"
    by (simp add: tag_chain_def range_py_def Let_def seam_def base1_def)
  have "seam \<noteq> i * (nx2 + 1) + base1" if "0 \<le> i" for i
  proof -
    have "0 \<le> i * (nx2 + 1)"
      using that pos by simp
    then show ?thesis
      using seam_lt by simp
  qed
  then have "seam \<notin> set (map (\<lambda>i. i * (nx2 + 1) + base1) [0..ny2 - 1 - 1 + 1])"
    by (simp add: image_iff)
  then have "distinct (seam # map (\<lambda>i. i * (nx2 + 1) + base1) [0..ny2 - 1 - 1 + 1])"
    using pos by (simp only: distinct.simps distinct_line) simp
  then show "is_chain (tag_chain 6 nx1 ny1 nx2 ny2)"
    unfolding t6 using pos by (intro is_chain_lead_forward) simp_all
  have t7: "tag_chain 7 nx1 ny1 nx2 ny2 =
      map (\<lambda>i. [(\<lambda>i. i * 1 + ((ny2 - 1) * (nx2 + 1) + base1)) i,
        (\<lambda>i. i * 1 + ((ny2 - 1) * (nx2 + 1) + base1)) (i + 1)]) [0..nx2 - 1]"
    by (simp add: tag_chain_def range_py_def Let_def base1_def algebra_simps)
  show "is_chain (tag_chain 7 nx1 ny1 nx2 ny2)"
    unfolding t7 using pos by (intro is_chain_forward distinct_line) simp_all
qed

lemma tag8_chain:
  assumes pos: "1 \<le> nx1" "1 \<le> ny1" "1 \<le> nx2" "1 \<le> ny2" and "nx1 = nx2"
  shows "is_chain (last (tag_chain 8 nx1 ny1 nx2 ny2) # butlast (tag_chain 8 nx1 ny1 nx2 ny2))"
proof -
  define base1 where "base1 = (ny1 + 1) * (nx1 + 1)"
  define seam where "seam = int_half ny1 * (nx1 + 1)"
  have h: "0 \<le> int_half ny1" "int_half ny1 < ny1"
    using pos(2) by (rule int_half_bounds)+
  have seam_lt: "seam + nx1 < base1"
    using grid_index_bound(2) [of "int_half ny1" "ny1 + 1" nx1 nx1] h pos
    by (simp add: seam_def base1_def)
  have t8: "last (tag_chain 8 nx1 ny1 nx2 ny2) # butlast (tag_chain 8 nx1 ny1 nx2 ny2) =
      [(\<lambda>i. i * (nx2 + 1) + (nx2 + base1)) 0, seam + nx1] #
      map (\<lambda>i. [(\<lambda>i. i * (nx2 + 1) + (nx2 + base1)) (i + 1), (\<lambda>i. i * (nx2 + 1) + (nx2 + base1)) i])
        [0..ny2 - 1 - 1]"
    using assms(5) by (simp add: tag_chain_def range_py_def Let_def seam_def base1_def algebra_simps)
  have "seam + nx1 \<noteq> i * (nx2 + 1) + (nx2 + base1)" if "0 \<le> i" for i
  proof -
    have "0 \<le> i * (nx2 + 1)"
      using that pos by simp
    then show ?thesis
      using seam_lt pos by simp
  qed
  then have "seam + nx1 \<notin> set (map (\<lambda>i. i * (nx2 + 1) + (nx2 + base1)) [0..ny2 - 1 - 1 + 1])"
    by (simp add: image_iff)
  then have "distinct ((seam + nx1) # map (\<lambda>i. i * (nx2 + 1) + (nx2 + base1)) [0..ny2 - 1 - 1 + 1])"
    using pos by (simp only: distinct.simps distinct_line) simp
  then show ?thesis
    unfolding t8 using pos by (intro is_chain_lead_backward) simp_all
qed

lemma tag8_in_order_added:
  "tag_chain 8 4 4 4 4 = [[34, 29], [39, 34], [44, 39], [29, 14]] \<and>
   \<not> is_chain [[34, 29], [39, 34], [44, 39], [29, 14]] \<and>
   is_chain [[29, 14], [34, 29], [39, 34], [44, 39]]"
  by code_simp

subsection \<open>Two runs that differ in \<open>ratio\<close>\<close>

lemma for_each_rel:
  assumes "\<And>x s t. x \<in> set xs \<Longrightarrow> R s t \<Longrightarrow> rel_sum (=) R (f x s) (g x t)" and "R s t"
  shows "rel_sum (=) R (for_each xs f s) (for_each xs g t)"
  using assms
proof (induction xs arbitrary: s t)
  case Nil
  then show ?case by simp
next
  case (Cons x xs)
  have step: "rel_sum (=) R (f x s) (g x t)"
    using Cons.prems by simp
  show ?case
  proof (cases "f x s")
    case (Inl e)
    then show ?thesis
      using step by (cases "g x t") simp_all
  next
    case (Inr s')
    then obtain t' where t': "g x t = Inr t'" and "R s' t'"
      using step by (cases "g x t") simp_all
    then have "rel_sum (=) R (for_each xs f s') (for_each xs g t')"
      using Cons.prems(1) by (intro Cons.IH) simp_all
    then show ?thesis
      using Inr t' by simp
  qed
qed

lemma bind_err_rel:
  assumes "rel_sum (=) R r r'" and "\<And>v v'. R v v' \<Longrightarrow> rel_sum (=) S (k v) (k' v')"
  shows "rel_sum (=) S (bind_err r k) (bind_err r' k')"
  using assms by (cases r; cases r') (simp_all add: bind_err_def)

lemma for_each_skip:
  assumes "\<And>x s. x \<in> set xs \<Longrightarrow> body x s = Inr s"
  shows "for_each xs body s = Inr s"
  using assms by (induction xs) simp_all

lemma upper_points_count:
  assumes "upper_points nx1 ny1 (m, pids) = Inr (m', pids')"
  shows "length (points m') = length (points m) + nat (ny1 + 1) * nat (nx1 + 1)"
proof (cases "nx1 \<noteq> 0 \<and> ny1 \<noteq> 0")
  case True
  then have "upper_points nx1 ny1 (m, pids) = Inr (fold add_point (upper_grid nx1 ny1) (m, pids))"
    by (intro upper_points_eq) simp_all
  then show ?thesis
    using assms by (auto simp: fold_add_point length_upper_grid)
next
  case zero: False
  show ?thesis
  proof (cases "ny1 + 1 \<le> 0 \<or> nx1 + 1 \<le> 0")
    case True
    then have "upper_points nx1 ny1 (m, pids) = Inr (m, pids)"
      unfolding upper_points_def
      by (intro for_each_skip) (auto simp: range_py_def)
    then show ?thesis
      using assms True by auto
  next
    case False
    then have rows: "range_py 0 (ny1 + 1) = 0 # range_py 1 (ny1 + 1)"
      and cols: "range_py 0 (nx1 + 1) = 0 # range_py 1 (nx1 + 1)"
      by (simp_all add: range_py_def upto_rec1)
    have "upper_points nx1 ny1 (m, pids) = Inl ZeroDivisionError"
      using zero by (auto simp: upper_points_def rows cols truediv_def bind_err_def)
    then show ?thesis
      using assms by simp
  qed
qed

lemma lower_points_rel:
  assumes "same_but_lower_y k m1 m2" and "k \<le> length (points m1)"
  shows "rel_sum (=) (\<lambda>s t. snd s = snd t \<and> same_but_lower_y k (fst s) (fst t) \<and>
        k \<le> length (points (fst s)))
     (lower_points nx2 ny2 r1 (m1, pids)) (lower_points nx2 ny2 r2 (m2, pids))"
proof -
  let ?R = "\<lambda>s t. snd s = snd t \<and> same_but_lower_y k (fst s) (fst t) \<and>
        k \<le> length (points (fst s))"
  have point: "rel_sum (=) ?R
      (bind_err (truediv j nx2) (\<lambda>x. bind_err (truediv (- i) ny2) (\<lambda>z. Inr (add_point (x, r1, z) s))))
      (bind_err (truediv j nx2) (\<lambda>x. bind_err (truediv (- i) ny2) (\<lambda>z. Inr (add_point (x, r2, z) t))))"
    if "?R s t" for i j s t
  proof -
    obtain ms ps mt pt where st: "s = (ms, ps)" "t = (mt, pt)"
      by (cases s, cases t) blast
    have "length (points ms) = length (points mt)"
      using that st by (auto simp: same_but_lower_y_def dest: map_eq_imp_length_eq)
    then show ?thesis
      using that st
      by (auto simp: truediv_def bind_err_def add_point_def same_but_lower_y_def)
  qed
  have row: "rel_sum (=) ?R
      (for_each (range_py 0 (nx2 + 1)) (\<lambda>j s.
         bind_err (truediv j nx2) (\<lambda>x. bind_err (truediv (- i) ny2) (\<lambda>z. Inr (add_point (x, r1, z) s)))) s)
      (for_each (range_py 0 (nx2 + 1)) (\<lambda>j s.
         bind_err (truediv j nx2) (\<lambda>x. bind_err (truediv (- i) ny2) (\<lambda>z. Inr (add_point (x, r2, z) s)))) t)"
    if "?R s t" for i s t
    by (rule for_each_rel [where R = ?R], rule point, assumption, rule that)
  show ?thesis
    unfolding lower_points_def
    by (rule for_each_rel [where R = ?R], rule row, assumption) (simp add: assms)
qed

lemma make_points_rel:
  "rel_sum (=) (\<lambda>s t. snd s = snd t \<and>
        same_but_lower_y (nat (ny1 + 1) * nat (nx1 + 1)) (fst s) (fst t))
     (make_points nx1 ny1 nx2 ny2 r1 (Mesh\<lparr>dim := 3\<rparr>, []))
     (make_points nx1 ny1 nx2 ny2 r2 (Mesh\<lparr>dim := 3\<rparr>, []))"
proof (cases "upper_points nx1 ny1 (Mesh\<lparr>dim := 3\<rparr>, [])")
  case (Inl e)
  then show ?thesis
    by (simp add: make_points_def bind_err_def)
next
  case (Inr u)
  obtain m pids where u: "u = (m, pids)"
    by (cases u)
  have len: "length (points m) = nat (ny1 + 1) * nat (nx1 + 1)"
    using upper_points_count [OF Inr [unfolded u]] by (simp add: Mesh_def)
  have "rel_sum (=) (\<lambda>s t. snd s = snd t \<and>
        same_but_lower_y (nat (ny1 + 1) * nat (nx1 + 1)) (fst s) (fst t) \<and>
        nat (ny1 + 1) * nat (nx1 + 1) \<le> length (points (fst s)))
     (lower_points nx2 ny2 r1 (m, pids)) (lower_points nx2 ny2 r2 (m, pids))"
    by (rule lower_points_rel) (simp_all add: same_but_lower_y_def len)
  then have "rel_sum (=) (\<lambda>s t. snd s = snd t \<and>
        same_but_lower_y (nat (ny1 + 1) * nat (nx1 + 1)) (fst s) (fst t))
     (lower_points nx2 ny2 r1 (m, pids)) (lower_points nx2 ny2 r2 (m, pids))"
    by (rule sum.rel_mono_strong) simp_all
  then show ?thesis
    by (simp add: make_points_def Inr u bind_err_def)
qed

lemma cell_rel:
  assumes "same_but_lower_y k m1 m2"
  shows "rel_sum (=) (same_but_lower_y k)
       (upper_cell get quads nx1 pids i j m1) (upper_cell get quads nx1 pids i j m2)"
    and "rel_sum (=) (same_but_lower_y k)
       (connector_cell get quads nx1 ny1 base1 pids j m1)
       (connector_cell get quads nx1 ny1 base1 pids j m2)"
    and "rel_sum (=) (same_but_lower_y k)
       (lower_cell get quads nx2 base1 pids i j m1) (lower_cell get quads nx2 base1 pids i j m2)"
    and "rel_sum (=) (same_but_lower_y k)
       (segment get pids a b tag m1) (segment get pids a b tag m2)"
  using assms
  by (auto simp: upper_cell_def connector_cell_def lower_cell_def segment_def Let_def
      bind_err_def add_element2d_def add_element1d_def same_but_lower_y_def split: sum.splits)

lemma faces_rel:
  assumes "same_but_lower_y k m1 m2"
  shows "rel_sum (=) (same_but_lower_y k)
       (upper_faces get quads nx1 ny1 pids m1) (upper_faces get quads nx1 ny1 pids m2)"
    and "rel_sum (=) (same_but_lower_y k)
       (connector_faces get quads nx1 ny1 base1 pids m1)
       (connector_faces get quads nx1 ny1 base1 pids m2)"
    and "rel_sum (=) (same_but_lower_y k)
       (lower_faces get quads nx2 ny2 base1 pids m1) (lower_faces get quads nx2 ny2 base1 pids m2)"
  unfolding upper_faces_def connector_faces_def lower_faces_def
  by ((rule for_each_rel [where R = "same_but_lower_y k"] cell_rel assms | assumption)+)+

lemma boundary_segments_rel:
  assumes "same_but_lower_y k m1 m2"
  shows "rel_sum (=) (same_but_lower_y k)
     (boundary_segments get nx1 ny1 nx2 ny2 base1 pids m1)
     (boundary_segments get nx1 ny1 nx2 ny2 base1 pids m2)"
  unfolding boundary_segments_def
  by (rule bind_err_rel [where R = "same_but_lower_y k"]
      for_each_rel [where R = "same_but_lower_y k"] cell_rel assms | assumption)+

subsection \<open>When the function returns\<close>

text \<open>
  For sizes from 1 on, the function returns a mesh exactly when the connector fits the
  lower grid, \<open>nx1 < ny2*(nx2+1)\<close>: \<open>MakeTStructureMesh_result\<close> is one direction, this
  is the other.
\<close>

lemma returns_only_if_fits:
  assumes pos: "1 \<le> nx1" "1 \<le> ny1" "1 \<le> nx2" "1 \<le> ny2"
    and ret: "MakeTStructureMesh quads nx1 ny1 nx2 ny2 ratio = Inr m"
  shows "nx1 < ny2 * (nx2 + 1)"
proof -
  define n where "n = (ny1 + 1) * (nx1 + 1) + ny2 * (nx2 + 1)"
  have pts: "make_points nx1 ny1 nx2 ny2 ratio (Mesh\<lparr>dim := 3\<rparr>, []) =
      Inr (Mesh\<lparr>dim := 3, points := upper_grid nx1 ny1 @ lower_grid nx2 ny2 ratio\<rparr>, [0..n - 1])"
    using pos total_points [OF pos, of ratio] by (simp add: make_points_eq n_def)
  from ret obtain m' m'' where
    "segment getitem [0..n - 1] ((ny1 + 1) * (nx1 + 1) + nx1) (int_half ny1 * (nx1 + 1) + nx1) 8 m' = Inr m''"
    unfolding MakeTStructureMesh_def MakeTStructureMesh_reading_def pts bind_err_Inr Let_def
      prod.case boundary_segments_def
    by (auto simp: bind_err_Inr_iff)
  then obtain v where v: "getitem [0..n - 1] ((ny1 + 1) * (nx1 + 1) + nx1) = Inr v"
    by (auto simp: segment_def bind_err_Inr_iff)
  have "0 \<le> (ny1 + 1) * (nx1 + 1) + nx1"
    using pos by simp
  moreover have "0 \<le> n"
    using pos by (simp add: n_def)
  ultimately have "(ny1 + 1) * (nx1 + 1) + nx1 < n"
    using v by (simp add: getitem_def split: if_splits)
  then show ?thesis
    by (simp add: n_def)
qed

subsection \<open>The connector cells in the list of faces\<close>

lemma nth_connector_face_list:
  assumes "0 \<le> j" and "j < nx1"
  shows "connector_face_list quads nx1 ny1 ! (nat j * (if quads then 1 else 2)) =
     (if quads then
        (1, [int_half ny1 * (nx1 + 1) + j, int_half ny1 * (nx1 + 1) + j + 1,
             (ny1 + 1) * (nx1 + 1) + j + 1, (ny1 + 1) * (nx1 + 1) + j])
      else
        (1, [int_half ny1 * (nx1 + 1) + j, int_half ny1 * (nx1 + 1) + j + 1,
             int_half ny1 * (nx1 + 1) + j + nx1 + 1]))"
proof -
  let ?cell = "\<lambda>j. if quads then
         [(1, [int_half ny1 * (nx1 + 1) + j, int_half ny1 * (nx1 + 1) + j + 1,
               (ny1 + 1) * (nx1 + 1) + j + 1, (ny1 + 1) * (nx1 + 1) + j])]
       else grid_cell False nx1 (int_half ny1 * (nx1 + 1) + j)"
  have rj: "range_py 0 nx1 ! nat j = j"
    using nth_range_py [of 0 j nx1] assms by simp
  have "concat (map ?cell (range_py 0 nx1)) ! (nat j * (if quads then 1 else 2) + 0) =
      ?cell (range_py 0 nx1 ! nat j) ! 0"
    using assms by (intro nth_concat_rows) (simp_all add: length_grid_cell length_range_py)
  then show ?thesis
    unfolding connector_face_list_def by (simp add: rj grid_cell_def)
qed

lemma connector_face_index:
  assumes "1 \<le> nx1" and "1 \<le> ny1" and "0 \<le> j" and "j < nx1"
  shows "nat ((if quads then 1 else 2) * (nx1 * ny1 + j)) =
       length (upper_face_list quads nx1 ny1) + nat j * (if quads then 1 else 2)"
    and "nat j * (if quads then 1 else 2) < length (connector_face_list quads nx1 ny1)"
  using assms
  by (simp_all add: length_upper_face_list length_connector_face_list nat_add_distrib
      nat_mult_distrib algebra_simps)

section \<open>The claims of the specification\<close>

text \<open>
  C5. For all \<open>nx1, ny1, nx2, ny2 \<ge> 1\<close> (the default parameters among them) the function adds
  \<open>(ny1+1)*(nx1+1) + ny2*(nx2+1)\<close> points to the mesh: the two point loops run without
  exception and leave that many points, and every mesh the function returns has that many.
\<close>

theorem point_count:
  assumes "1 \<le> nx1" and "1 \<le> ny1" and "1 \<le> nx2" and "1 \<le> ny2"
  shows "(\<exists>m0 pids. make_points nx1 ny1 nx2 ny2 ratio (Mesh\<lparr>dim := 3\<rparr>, []) = Inr (m0, pids) \<and>
        int (length (points m0)) = (ny1 + 1) * (nx1 + 1) + ny2 * (nx2 + 1)) \<and>
     (\<forall>m. MakeTStructureMesh quads nx1 ny1 nx2 ny2 ratio = Inr m \<longrightarrow>
        int (length (points m)) = (ny1 + 1) * (nx1 + 1) + ny2 * (nx2 + 1))"
proof -
  have pts: "make_points nx1 ny1 nx2 ny2 ratio (Mesh\<lparr>dim := 3\<rparr>, []) =
     Inr (Mesh\<lparr>dim := 3, points := upper_grid nx1 ny1 @ lower_grid nx2 ny2 ratio\<rparr>,
          [0..int (length (upper_grid nx1 ny1 @ lower_grid nx2 ny2 ratio)) - 1])"
    using assms by (intro make_points_eq) simp_all
  have len: "int (length (upper_grid nx1 ny1 @ lower_grid nx2 ny2 ratio)) =
      (ny1 + 1) * (nx1 + 1) + ny2 * (nx2 + 1)"
    using assms by (rule total_points)
  have "int (length (points m)) = (ny1 + 1) * (nx1 + 1) + ny2 * (nx2 + 1)"
    if "MakeTStructureMesh quads nx1 ny1 nx2 ny2 ratio = Inr m" for m
    using reading_points [OF that [unfolded MakeTStructureMesh_def]] pts len by auto
  then show ?thesis
    using pts len by simp
qed

theorem point_count_witness:
  "(1::int) \<le> 4 \<and>
   (\<exists>m. MakeTStructureMesh True 4 4 4 4 (1/2) = Inr m \<and> int (length (points m)) = 45)"
proof -
  have r: "MakeTStructureMesh True 4 4 4 4 (1/2) = Inr (built_mesh True 4 4 4 4 (1/2))"
    by (rule MakeTStructureMesh_result) simp_all
  have "int (length (points (built_mesh True 4 4 4 4 (1/2)))) = 45"
    using point_count [of 4 4 4 4 "1/2" True] r by simp
  then show ?thesis
    using r by simp
qed

text \<open>
  C3, as the specification states it: the function adds \<open>2*nx1 + 2*ny1 + nx2 + ny2 + nx2\<close>
  boundary segments. For the default parameters that would be 28; the function adds 32.
\<close>

theorem boundary_count_counterexample:
  "map_sum id (\<lambda>m. int (length (elements1d m))) (MakeTStructureMesh True 4 4 4 4 (1/2)) = Inr 32 \<and>
   (32::int) \<noteq> 2 * 4 + 2 * 4 + 4 + 4 + 4"
  by (simp add: MakeTStructureMesh_result built_mesh_def length_segment_list)

text \<open>
  C3, amended: whenever \<open>nx1, ny1, nx2, ny2 \<ge> 1\<close> and the connector fits the lower grid
  (\<open>nx1 < ny2*(nx2+1)\<close>, which holds when \<open>nx1 = nx2\<close>), the function returns a mesh with
  \<open>2*nx1 + 2*ny1 + 2*nx2 + 2*ny2\<close> boundary segments: \<open>nx1, ny1, nx1, ny1, nx2, ny2, nx2, ny2\<close>
  of them under the tags 1 to 8, which carry the eight names.
\<close>

theorem boundary_count:
  assumes "1 \<le> nx1" and "1 \<le> ny1" and "1 \<le> nx2" and "1 \<le> ny2"
    and "nx1 < ny2 * (nx2 + 1)"
  shows "\<exists>m. MakeTStructureMesh quads nx1 ny1 nx2 ny2 ratio = Inr m \<and>
     int (length (elements1d m)) = 2 * nx1 + 2 * ny1 + 2 * nx2 + 2 * ny2 \<and>
     map (\<lambda>t. int (length (segments_of t m))) [1, 2, 3, 4, 5, 6, 7, 8] =
       [nx1, ny1, nx1, ny1, nx2, ny2, nx2, ny2] \<and>
     cd2names m = name_list"
proof -
  let ?m = "built_mesh quads nx1 ny1 nx2 ny2 ratio"
  have "MakeTStructureMesh quads nx1 ny1 nx2 ny2 ratio = Inr ?m"
    using assms by (rule MakeTStructureMesh_result)
  moreover have "int (length (elements1d ?m)) = 2 * nx1 + 2 * ny1 + 2 * nx2 + 2 * ny2"
    using assms(1-4) by (simp add: built_mesh_def length_segment_list)
  moreover have "map (\<lambda>t. int (length (segments_of t ?m))) [1, 2, 3, 4, 5, 6, 7, 8] =
       [nx1, ny1, nx1, ny1, nx2, ny2, nx2, ny2]"
    using length_tag_chain [OF assms(1-4)] by (simp add: segments_of_built)
  moreover have "cd2names ?m = name_list"
    by (simp add: built_mesh_def)
  ultimately show ?thesis
    by (intro exI [of _ ?m] conjI)
qed

theorem boundary_count_witness:
  "(1::int) \<le> 4 \<and> (4::int) < 4 * (4 + 1) \<and>
   (\<exists>m. MakeTStructureMesh True 4 4 4 4 (1/2) = Inr m \<and> int (length (elements1d m)) = 32 \<and>
     map (\<lambda>t. int (length (segments_of t m))) [1, 2, 3, 4, 5, 6, 7, 8] = [4, 4, 4, 4, 4, 4, 4, 4] \<and>
     cd2names m = name_list)"
  using boundary_count [of 4 4 4 4 True "1/2"] by simp

text \<open>
  C6, as the specification states it: for all \<open>nx1, ny1, nx2, ny2 \<ge> 1\<close> with \<open>ny1\<close> even the
  function adds \<open>nx1*ny1 + nx1 + nx2*(ny2-1)\<close> quadrilaterals. With \<open>nx1 = 4\<close>, \<open>ny1 = 2\<close>,
  \<open>nx2 = 1\<close>, \<open>ny2 = 1\<close> the second connector cell reads \<open>pids[base1 + 2]\<close> behind the end of
  the list: the call raises \<open>IndexError\<close> and returns no mesh.
\<close>

theorem face_count_counterexample:
  "MakeTStructureMesh True 4 2 1 1 (1/2) = Inl IndexError"
  by code_simp

text \<open>
  C6, amended: whenever \<open>nx1, ny1, nx2, ny2 \<ge> 1\<close> and \<open>nx1 < ny2*(nx2+1)\<close> (which holds when
  \<open>nx1 = nx2\<close>), the function returns a mesh with \<open>nx1*ny1 + nx1 + nx2*(ny2-1)\<close> faces when
  \<open>quads\<close> is true and twice as many when it is false.
\<close>

theorem face_count_fitting:
  assumes "1 \<le> nx1" and "1 \<le> ny1" and "1 \<le> nx2" and "1 \<le> ny2"
    and "nx1 < ny2 * (nx2 + 1)"
  shows "\<exists>m. MakeTStructureMesh quads nx1 ny1 nx2 ny2 ratio = Inr m \<and>
     int (length (elements2d m)) = (if quads then 1 else 2) * (nx1 * ny1 + nx1 + nx2 * (ny2 - 1))"
  using MakeTStructureMesh_result [OF assms] face_count [OF assms(1-4)] by simp

theorem face_count_fitting_witness:
  "(1::int) \<le> 4 \<and> (4::int) < 4 * (4 + 1) \<and>
   (\<exists>m. MakeTStructureMesh True 4 4 4 4 (1/2) = Inr m \<and> int (length (elements2d m)) = 32) \<and>
   (\<exists>m. MakeTStructureMesh False 4 4 4 4 (1/2) = Inr m \<and> int (length (elements2d m)) = 64)"
  using face_count_fitting [of 4 4 4 4 True "1/2"] face_count_fitting [of 4 4 4 4 False "1/2"]
  by simp

text \<open>
  C9. For all \<open>nx1, ny1, nx2, ny2 \<ge> 1\<close> with \<open>nx1 = nx2\<close>, every \<open>quads\<close> and every \<open>ratio\<close>,
  each index used to read \<open>pids\<close> lies in \<open>0 \<le> p < len(pids)\<close>: the run in which a read outside
  these bounds raises (\<open>getitem_inside\<close>, which does not wrap negative indices around) returns
  a mesh, the one the function returns.
\<close>

theorem reads_inside:
  assumes "1 \<le> nx1" and "1 \<le> ny1" and "1 \<le> nx2" and "1 \<le> ny2" and "nx1 = nx2"
  shows "\<exists>m. MakeTStructureMesh_reading getitem_inside quads nx1 ny1 nx2 ny2 ratio = Inr m \<and>
     MakeTStructureMesh quads nx1 ny1 nx2 ny2 ratio = Inr m"
proof -
  have "0 \<le> (ny2 - 1) * (nx2 + 1)"
    using assms by simp
  then have fit: "nx1 < ny2 * (nx2 + 1)"
    using assms by (simp add: algebra_simps)
  have "MakeTStructureMesh_reading getitem_inside quads nx1 ny1 nx2 ny2 ratio =
      Inr (built_mesh quads nx1 ny1 nx2 ny2 ratio)"
    using assms(1-4) fit by (rule reading_result) (simp add: getitem_upto)
  moreover have "MakeTStructureMesh quads nx1 ny1 nx2 ny2 ratio =
      Inr (built_mesh quads nx1 ny1 nx2 ny2 ratio)"
    using assms(1-4) fit by (rule MakeTStructureMesh_result)
  ultimately show ?thesis
    by simp
qed

theorem reads_inside_witness:
  "(1::int) \<le> 4 \<and> (4::int) = 4 \<and>
   (\<exists>m. MakeTStructureMesh_reading getitem_inside False 4 4 4 4 (1/2) = Inr m \<and>
     MakeTStructureMesh False 4 4 4 4 (1/2) = Inr m)"
  using reads_inside [of 4 4 4 4 False "1/2"] by simp

text \<open>
  C4, as the specification states it: the lower patch contributes \<open>(ny2+1)*(nx2+1)\<close> points.
  For \<open>nx1 = ny1 = nx2 = ny2 = 2\<close> that would be 9; the function adds 6 points after the 9
  of the upper patch.
\<close>

theorem point_sequence_counterexample:
  "map_sum id (\<lambda>m. int (length (points m)) - (2 + 1) * (2 + 1))
     (MakeTStructureMesh True 2 2 2 2 (1/2)) = Inr 6 \<and>
   (6::int) \<noteq> (2 + 1) * (2 + 1)"
  by (simp add: MakeTStructureMesh_result built_mesh_def length_upper_grid length_lower_grid)

text \<open>
  C4, amended: for \<open>nx1, ny1, nx2, ny2 \<ge> 1\<close> the point sequence consists of the upper
  patch's \<open>(ny1+1)*(nx1+1)\<close> grid points, row by row, point \<open>(i, j)\<close> at
  \<open>(j/nx1, i/ny1, 0)\<close> in the unit square, followed by the lower patch's \<open>ny2*(nx2+1)\<close>
  points, rows \<open>i = 1..ny2\<close>, point \<open>(i, j)\<close> at \<open>(j/nx2, ratio, -i/ny2)\<close>: the lower
  patch's row at \<open>z = 0\<close> is not stored.
\<close>

theorem point_sequence:
  assumes "1 \<le> nx1" and "1 \<le> ny1" and "1 \<le> nx2" and "1 \<le> ny2"
  shows "(\<exists>m0 pids. make_points nx1 ny1 nx2 ny2 ratio (Mesh\<lparr>dim := 3\<rparr>, []) = Inr (m0, pids) \<and>
        points m0 = upper_grid nx1 ny1 @ lower_grid nx2 ny2 ratio) \<and>
     (\<forall>m. MakeTStructureMesh quads nx1 ny1 nx2 ny2 ratio = Inr m \<longrightarrow>
        points m = upper_grid nx1 ny1 @ lower_grid nx2 ny2 ratio) \<and>
     int (length (upper_grid nx1 ny1)) = (ny1 + 1) * (nx1 + 1) \<and>
     int (length (lower_grid nx2 ny2 ratio)) = ny2 * (nx2 + 1) \<and>
     (\<forall>i j. 0 \<le> i \<and> i \<le> ny1 \<and> 0 \<le> j \<and> j \<le> nx1 \<longrightarrow>
        upper_grid nx1 ny1 ! nat (i * (nx1 + 1) + j) =
          (real_of_int j / real_of_int nx1, real_of_int i / real_of_int ny1, 0)) \<and>
     (\<forall>i j. 1 \<le> i \<and> i \<le> ny2 \<and> 0 \<le> j \<and> j \<le> nx2 \<longrightarrow>
        lower_grid nx2 ny2 ratio ! nat ((i - 1) * (nx2 + 1) + j) =
          (real_of_int j / real_of_int nx2, ratio, - real_of_int i / real_of_int ny2)) \<and>
     (\<forall>p \<in> set (upper_grid nx1 ny1).
        0 \<le> fst p \<and> fst p \<le> 1 \<and> 0 \<le> fst (snd p) \<and> fst (snd p) \<le> 1 \<and> snd (snd p) = 0) \<and>
     (\<forall>p \<in> set (lower_grid nx2 ny2 ratio).
        0 \<le> fst p \<and> fst p \<le> 1 \<and> fst (snd p) = ratio \<and> - 1 \<le> snd (snd p) \<and> snd (snd p) < 0)"
proof -
  have pts: "make_points nx1 ny1 nx2 ny2 ratio (Mesh\<lparr>dim := 3\<rparr>, []) =
     Inr (Mesh\<lparr>dim := 3, points := upper_grid nx1 ny1 @ lower_grid nx2 ny2 ratio\<rparr>,
          [0..int (length (upper_grid nx1 ny1 @ lower_grid nx2 ny2 ratio)) - 1])"
    using assms by (intro make_points_eq) simp_all
  have c1: "\<exists>m0 pids. make_points nx1 ny1 nx2 ny2 ratio (Mesh\<lparr>dim := 3\<rparr>, []) = Inr (m0, pids) \<and>
        points m0 = upper_grid nx1 ny1 @ lower_grid nx2 ny2 ratio"
    using pts by simp
  have c2: "\<forall>m. MakeTStructureMesh quads nx1 ny1 nx2 ny2 ratio = Inr m \<longrightarrow>
        points m = upper_grid nx1 ny1 @ lower_grid nx2 ny2 ratio"
  proof (intro allI impI)
    fix m assume "MakeTStructureMesh quads nx1 ny1 nx2 ny2 ratio = Inr m"
    from reading_points [OF this [unfolded MakeTStructureMesh_def]] pts
    show "points m = upper_grid nx1 ny1 @ lower_grid nx2 ny2 ratio"
      by auto
  qed
  have c3: "int (length (upper_grid nx1 ny1)) = (ny1 + 1) * (nx1 + 1)"
    using assms by (simp add: length_upper_grid nat_mult_distrib)
  have c4: "int (length (lower_grid nx2 ny2 ratio)) = ny2 * (nx2 + 1)"
    using assms by (simp add: length_lower_grid nat_mult_distrib)
  have c5: "\<forall>i j. 0 \<le> i \<and> i \<le> ny1 \<and> 0 \<le> j \<and> j \<le> nx1 \<longrightarrow>
        upper_grid nx1 ny1 ! nat (i * (nx1 + 1) + j) =
          (real_of_int j / real_of_int nx1, real_of_int i / real_of_int ny1, 0)"
    by (simp add: nth_upper_grid)
  have c6: "\<forall>i j. 1 \<le> i \<and> i \<le> ny2 \<and> 0 \<le> j \<and> j \<le> nx2 \<longrightarrow>
        lower_grid nx2 ny2 ratio ! nat ((i - 1) * (nx2 + 1) + j) =
          (real_of_int j / real_of_int nx2, ratio, - real_of_int i / real_of_int ny2)"
    by (simp add: nth_lower_grid)
  have c7: "\<forall>p \<in> set (upper_grid nx1 ny1).
        0 \<le> fst p \<and> fst p \<le> 1 \<and> 0 \<le> fst (snd p) \<and> fst (snd p) \<le> 1 \<and> snd (snd p) = 0"
    using upper_grid_box [OF assms(1,2)] by blast
  have c8: "\<forall>p \<in> set (lower_grid nx2 ny2 ratio).
        0 \<le> fst p \<and> fst p \<le> 1 \<and> fst (snd p) = ratio \<and> - 1 \<le> snd (snd p) \<and> snd (snd p) < 0"
    using lower_grid_box [OF assms(3,4)] by blast
  show ?thesis
    by (intro conjI c1 c2 c3 c4 c5 c6 c7 c8)
qed

theorem point_sequence_witness:
  "(1::int) \<le> 2 \<and>
   (\<exists>m. MakeTStructureMesh True 2 2 2 2 (1/2) = Inr m \<and>
      points m = upper_grid 2 2 @ lower_grid 2 2 (1/2) \<and>
      int (length (upper_grid 2 2)) = 9 \<and> int (length (lower_grid 2 2 (1/2))) = 6 \<and>
      lower_grid 2 2 (1/2) ! 4 = (1/2, 1/2, - 1))"
proof -
  have r: "MakeTStructureMesh True 2 2 2 2 (1/2) = Inr (built_mesh True 2 2 2 2 (1/2))"
    by (rule MakeTStructureMesh_result) simp_all
  have two: "(1::int) \<le> 2"
    by simp
  note t = point_sequence [OF two two two two, of "1/2" True]
  have "points (built_mesh True 2 2 2 2 (1/2)) = upper_grid 2 2 @ lower_grid 2 2 (1/2)"
    using t r by simp
  moreover have "int (length (upper_grid 2 2)) = 9" "int (length (lower_grid 2 2 (1/2))) = 6"
    using t by simp_all
  moreover have "lower_grid 2 2 (1/2) ! 4 = (1/2, 1/2, - 1)"
    using t [THEN conjunct2, THEN conjunct2, THEN conjunct2, THEN conjunct2, THEN conjunct2,
      THEN conjunct1, rule_format, of 2 1] by simp
  ultimately show ?thesis
    using r by simp
qed

text \<open>
  C1, as the specification states it: the row of the upper grid to which the connector strip
  attaches lies at height \<open>y = ratio\<close>. With \<open>ratio = 0\<close> (and \<open>nx1 = 1\<close>, \<open>ny1 = 2\<close>,
  \<open>nx2 = ny2 = 1\<close>) the connector quadrilateral is \<open>[2, 3, 7, 6]\<close>: its lower-grid points 7
  and 6 lie at \<open>y = 0\<close>, its upper-grid points 2 and 3 lie at \<open>y = 1/2\<close>.
\<close>

theorem seam_height_counterexample:
  "map_sum id (\<lambda>m. (elements2d m ! 2, map (\<lambda>p. fst (snd (points m ! nat p))) [2, 3, 7, 6]))
     (MakeTStructureMesh True 1 2 1 1 0) = Inr ((1, [2, 3, 7, 6]), [1/2, 1/2, 0, 0])"
  by code_simp

text \<open>
  C1, amended: \<open>ratio\<close> is the \<open>y\<close> coordinate of every point of the lower patch (so
  \<open>ratio = 0\<close> places the lower grid, its attachment row included, at \<open>y = 0\<close>). The row of
  the upper grid to which the connector strip attaches is row \<open>int(ny1/2)\<close>, at height
  \<open>int(ny1/2)/ny1\<close>, which is \<open>1/2\<close> for even \<open>ny1\<close>, whatever \<open>ratio\<close> is: the first face of
  connector cell \<open>j\<close> (the face after the \<open>nx1*ny1\<close> cells of the upper grid and the \<open>j\<close>
  connector cells before it) starts with the points \<open>int(ny1/2)*(nx1+1) + j\<close> and the next
  one of that row, and with \<open>quads=True\<close> it is the quadrilateral that goes on to the points
  \<open>base1+j+1\<close> and \<open>base1+j\<close> of the lower patch, which lie at \<open>y = ratio\<close>.
\<close>

theorem seam_height:
  assumes "1 \<le> nx1" and "1 \<le> ny1" and "1 \<le> nx2" and "1 \<le> ny2"
    and "nx1 < ny2 * (nx2 + 1)"
  shows "\<exists>m. MakeTStructureMesh quads nx1 ny1 nx2 ny2 ratio = Inr m \<and>
     (\<forall>j. 0 \<le> j \<and> j < nx1 \<longrightarrow>
        take 2 (snd (elements2d m ! nat ((if quads then 1 else 2) * (nx1 * ny1 + j)))) =
          [int_half ny1 * (nx1 + 1) + j, int_half ny1 * (nx1 + 1) + j + 1] \<and>
        (quads \<longrightarrow> elements2d m ! nat (nx1 * ny1 + j) =
          (1, [int_half ny1 * (nx1 + 1) + j, int_half ny1 * (nx1 + 1) + j + 1,
               (ny1 + 1) * (nx1 + 1) + j + 1, (ny1 + 1) * (nx1 + 1) + j]))) \<and>
     (\<forall>j. 0 \<le> j \<and> j \<le> nx1 \<longrightarrow>
        fst (snd (points m ! nat (int_half ny1 * (nx1 + 1) + j))) =
          real_of_int (int_half ny1) / real_of_int ny1) \<and>
     (even ny1 \<longrightarrow> real_of_int (int_half ny1) / real_of_int ny1 = 1/2) \<and>
     (\<forall>p. (ny1 + 1) * (nx1 + 1) \<le> p \<and> p < int (length (points m)) \<longrightarrow>
        fst (snd (points m ! nat p)) = ratio) \<and>
     (ny1 + 1) * (nx1 + 1) + nx1 < int (length (points m))"
proof -
  let ?m = "built_mesh quads nx1 ny1 nx2 ny2 ratio"
  let ?c = "if quads then 1 else 2 :: int"
  have h: "0 \<le> int_half ny1" "int_half ny1 < ny1"
    using assms(2) by (rule int_half_bounds)+
  have len_up: "int (length (upper_grid nx1 ny1)) = (ny1 + 1) * (nx1 + 1)"
    using assms by (simp add: length_upper_grid nat_mult_distrib)
  have r: "MakeTStructureMesh quads nx1 ny1 nx2 ny2 ratio = Inr ?m"
    using assms by (rule MakeTStructureMesh_result)
  have conn: "take 2 (snd (elements2d ?m ! nat ((if quads then 1 else 2) * (nx1 * ny1 + j)))) =
          [int_half ny1 * (nx1 + 1) + j, int_half ny1 * (nx1 + 1) + j + 1] \<and>
        (quads \<longrightarrow> elements2d ?m ! nat (nx1 * ny1 + j) =
          (1, [int_half ny1 * (nx1 + 1) + j, int_half ny1 * (nx1 + 1) + j + 1,
               (ny1 + 1) * (nx1 + 1) + j + 1, (ny1 + 1) * (nx1 + 1) + j]))"
    if j: "0 \<le> j \<and> j < nx1" for j
  proof -
    have ix: "nat ((if quads then 1 else 2) * (nx1 * ny1 + j)) =
        length (upper_face_list quads nx1 ny1) + nat j * (if quads then 1 else 2)"
      using assms(1,2) j by (intro connector_face_index(1)) simp_all
    have lt: "nat j * (if quads then 1 else 2) < length (connector_face_list quads nx1 ny1)"
      using assms(1,2) j by (intro connector_face_index(2)) simp_all
    have "elements2d ?m ! (length (upper_face_list quads nx1 ny1) + nat j * (if quads then 1 else 2)) =
        connector_face_list quads nx1 ny1 ! (nat j * (if quads then 1 else 2))"
      using lt by (simp add: built_mesh_def nth_append)
    then have e: "elements2d ?m ! nat ((if quads then 1 else 2) * (nx1 * ny1 + j)) =
        (if quads then
          (1, [int_half ny1 * (nx1 + 1) + j, int_half ny1 * (nx1 + 1) + j + 1,
               (ny1 + 1) * (nx1 + 1) + j + 1, (ny1 + 1) * (nx1 + 1) + j])
         else
          (1, [int_half ny1 * (nx1 + 1) + j, int_half ny1 * (nx1 + 1) + j + 1,
               int_half ny1 * (nx1 + 1) + j + nx1 + 1]))"
      unfolding ix using j by (simp only: nth_connector_face_list)
    show ?thesis
    proof (cases quads)
      case True
      then show ?thesis
        using e by simp
    next
      case False
      then show ?thesis
        using e by simp
    qed
  qed
  have seam: "fst (snd (points ?m ! nat (int_half ny1 * (nx1 + 1) + j))) =
      real_of_int (int_half ny1) / real_of_int ny1" if "0 \<le> j \<and> j \<le> nx1" for j
  proof -
    have "int_half ny1 * (nx1 + 1) + j < (ny1 + 1) * (nx1 + 1)"
      using h that by (intro grid_index_bound(2)) simp_all
    moreover have "0 \<le> int_half ny1 * (nx1 + 1) + j"
      using h that by (intro grid_index_bound(1) [where r = ny1]) simp_all
    ultimately have "nat (int_half ny1 * (nx1 + 1) + j) < length (upper_grid nx1 ny1)"
      using len_up by linarith
    then have "points ?m ! nat (int_half ny1 * (nx1 + 1) + j) =
        upper_grid nx1 ny1 ! nat (int_half ny1 * (nx1 + 1) + j)"
      by (simp add: built_mesh_def nth_append)
    then show ?thesis
      using h that by (simp add: nth_upper_grid)
  qed
  have half: "real_of_int (int_half ny1) / real_of_int ny1 = 1/2" if "even ny1"
  proof -
    from that obtain k where "ny1 = 2 * k" ..
    then show ?thesis
      using assms(2) by (simp add: int_half_def)
  qed
  have low: "fst (snd (points ?m ! nat p)) = ratio"
    if "(ny1 + 1) * (nx1 + 1) \<le> p \<and> p < int (length (points ?m))" for p
  proof -
    have "length (upper_grid nx1 ny1) \<le> nat p"
      using that len_up by linarith
    moreover have "nat p - length (upper_grid nx1 ny1) < length (lower_grid nx2 ny2 ratio)"
      using that len_up by (simp add: built_mesh_def) linarith
    ultimately have "points ?m ! nat p \<in> set (lower_grid nx2 ny2 ratio)"
      by (simp add: built_mesh_def nth_append)
    then show ?thesis
      using lower_grid_box [OF assms(3,4)] by blast
  qed
  have size: "(ny1 + 1) * (nx1 + 1) + nx1 < int (length (points ?m))"
    using total_points [OF assms(1-4), of ratio] assms(5) by (simp add: built_mesh_def)
  show ?thesis
  proof (rule exI [of _ ?m], intro conjI)
    show "MakeTStructureMesh quads nx1 ny1 nx2 ny2 ratio = Inr ?m"
      by (rule r)
    show "\<forall>j. 0 \<le> j \<and> j < nx1 \<longrightarrow>
        take 2 (snd (elements2d ?m ! nat ((if quads then 1 else 2) * (nx1 * ny1 + j)))) =
          [int_half ny1 * (nx1 + 1) + j, int_half ny1 * (nx1 + 1) + j + 1] \<and>
        (quads \<longrightarrow> elements2d ?m ! nat (nx1 * ny1 + j) =
          (1, [int_half ny1 * (nx1 + 1) + j, int_half ny1 * (nx1 + 1) + j + 1,
               (ny1 + 1) * (nx1 + 1) + j + 1, (ny1 + 1) * (nx1 + 1) + j]))"
      by (intro allI impI, rule conn)
    show "\<forall>j. 0 \<le> j \<and> j \<le> nx1 \<longrightarrow>
        fst (snd (points ?m ! nat (int_half ny1 * (nx1 + 1) + j))) =
          real_of_int (int_half ny1) / real_of_int ny1"
      by (intro allI impI, rule seam)
    show "even ny1 \<longrightarrow> real_of_int (int_half ny1) / real_of_int ny1 = 1/2"
      by (intro impI, rule half)
    show "\<forall>p. (ny1 + 1) * (nx1 + 1) \<le> p \<and> p < int (length (points ?m)) \<longrightarrow>
        fst (snd (points ?m ! nat p)) = ratio"
      by (intro allI impI, rule low)
    show "(ny1 + 1) * (nx1 + 1) + nx1 < int (length (points ?m))"
      by (rule size)
  qed
qed

theorem seam_height_witness:
  "(1::int) \<le> 4 \<and> (4::int) < 4 * (4 + 1) \<and> even (4::int) \<and>
   (\<exists>m. MakeTStructureMesh True 4 4 4 4 0 = Inr m \<and>
      elements2d m ! 16 = (1, [10, 11, 26, 25]) \<and>
      fst (snd (points m ! 10)) = 1/2 \<and> fst (snd (points m ! 11)) = 1/2 \<and>
      fst (snd (points m ! 26)) = 0 \<and> fst (snd (points m ! 25)) = 0)"
proof -
  have four: "(1::int) \<le> 4" and fit: "(4::int) < 4 * (4 + 1)"
    by simp_all
  from seam_height [OF four four four four fit, of True 0]
  obtain m where m: "MakeTStructureMesh True 4 4 4 4 0 = Inr m"
    and conn: "\<forall>j. 0 \<le> j \<and> j < 4 \<longrightarrow>
        take 2 (snd (elements2d m ! nat ((if True then 1 else 2) * (4 * 4 + j)))) =
          [int_half 4 * (4 + 1) + j, int_half 4 * (4 + 1) + j + 1] \<and>
        (True \<longrightarrow> elements2d m ! nat (4 * 4 + j) =
          (1, [int_half 4 * (4 + 1) + j, int_half 4 * (4 + 1) + j + 1,
               (4 + 1) * (4 + 1) + j + 1, (4 + 1) * (4 + 1) + j]))"
    and seam: "\<forall>j. 0 \<le> j \<and> j \<le> 4 \<longrightarrow>
        fst (snd (points m ! nat (int_half 4 * (4 + 1) + j))) =
          real_of_int (int_half 4) / real_of_int 4"
    and low: "\<forall>p. (4 + 1) * (4 + 1) \<le> p \<and> p < int (length (points m)) \<longrightarrow>
        fst (snd (points m ! nat p)) = 0"
    and size: "(4 + 1) * (4 + 1) + 4 < int (length (points m))"
    by blast
  have "elements2d m ! nat (4 * 4 + 0) = (1, [10, 11, 26, 25])"
    using conn [rule_format, of 0] by (simp add: int_half_def)
  moreover have "fst (snd (points m ! nat 25)) = 0" "fst (snd (points m ! nat 26)) = 0"
    using low [rule_format, of 25] low [rule_format, of 26] size by simp_all
  moreover have "fst (snd (points m ! nat (int_half 4 * (4 + 1) + 0))) = 1/2"
    "fst (snd (points m ! nat (int_half 4 * (4 + 1) + 1))) = 1/2"
    using seam [rule_format, of 0] seam [rule_format, of 1] by (simp_all add: int_half_def)
  ultimately show ?thesis
    using m by (simp add: int_half_def)
qed

text \<open>
  C7, as the specification states it: with \<open>quads=False\<close> a cell with corners
  \<open>base, base+1, base+nx1+2, base+nx1+1\<close> is split along the diagonal from its first corner
  \<open>base\<close> to its third corner \<open>base+nx1+2\<close>. For \<open>nx1 = ny1 = 1\<close> the cell has the corners
  0, 1, 3, 2, and neither of its two triangles holds both 0 and 3.
\<close>

theorem triangle_split_counterexample:
  "map_sum id (\<lambda>m. take 2 (elements2d m)) (MakeTStructureMesh False 1 1 1 1 (1/2)) =
     Inr [(1, [0, 1, 2]), (1, [1, 3, 2])] \<and>
   \<not> {0, 3} \<subseteq> set [0, 1, 2 :: int] \<and> \<not> {0, 3} \<subseteq> set [1, 3, 2 :: int]"
proof -
  have "map_sum id (\<lambda>m. take 2 (elements2d m)) (MakeTStructureMesh False 1 1 1 1 (1/2)) =
     Inr [(1, [0, 1, 2]), (1, [1, 3, 2])]"
    by code_simp
  then show ?thesis
    by simp
qed

text \<open>
  C7, amended: with \<open>quads=False\<close> the cell \<open>(i, j)\<close> of the upper grid, \<open>base = i*(nx1+1)+j\<close>,
  becomes the two triangles \<open>[base, base+1, base+nx1+1]\<close> and
  \<open>[base+1, base+nx1+2, base+nx1+1]\<close>, added one after the other: the cell is split along
  the diagonal from its second corner \<open>base+1\<close> to its fourth corner \<open>base+nx1+1\<close>, the two
  points the triangles share.
\<close>

theorem triangle_split:
  assumes "1 \<le> nx1" and "1 \<le> ny1" and "1 \<le> nx2" and "1 \<le> ny2"
    and "nx1 < ny2 * (nx2 + 1)"
  shows "\<exists>m. MakeTStructureMesh False nx1 ny1 nx2 ny2 ratio = Inr m \<and>
     (\<forall>i j. 0 \<le> i \<and> i < ny1 \<and> 0 \<le> j \<and> j < nx1 \<longrightarrow>
        elements2d m ! nat (2 * (i * nx1 + j)) =
          (1, [i * (nx1 + 1) + j, i * (nx1 + 1) + j + 1, i * (nx1 + 1) + j + nx1 + 1]) \<and>
        elements2d m ! nat (2 * (i * nx1 + j) + 1) =
          (1, [i * (nx1 + 1) + j + 1, i * (nx1 + 1) + j + nx1 + 2, i * (nx1 + 1) + j + nx1 + 1]) \<and>
        set (snd (elements2d m ! nat (2 * (i * nx1 + j)))) \<inter>
          set (snd (elements2d m ! nat (2 * (i * nx1 + j) + 1))) =
          {i * (nx1 + 1) + j + 1, i * (nx1 + 1) + j + nx1 + 1})"
proof -
  let ?m = "built_mesh False nx1 ny1 nx2 ny2 ratio"
  have r: "MakeTStructureMesh False nx1 ny1 nx2 ny2 ratio = Inr ?m"
    using assms by (rule MakeTStructureMesh_result)
  have cells: "elements2d ?m ! nat (2 * (i * nx1 + j)) =
          (1, [i * (nx1 + 1) + j, i * (nx1 + 1) + j + 1, i * (nx1 + 1) + j + nx1 + 1]) \<and>
        elements2d ?m ! nat (2 * (i * nx1 + j) + 1) =
          (1, [i * (nx1 + 1) + j + 1, i * (nx1 + 1) + j + nx1 + 2, i * (nx1 + 1) + j + nx1 + 1]) \<and>
        set (snd (elements2d ?m ! nat (2 * (i * nx1 + j)))) \<inter>
          set (snd (elements2d ?m ! nat (2 * (i * nx1 + j) + 1))) =
          {i * (nx1 + 1) + j + 1, i * (nx1 + 1) + j + nx1 + 1}"
    if ij: "0 \<le> i \<and> i < ny1 \<and> 0 \<le> j \<and> j < nx1" for i j
  proof -
    have hi: "nat (2 * (i * nx1 + j) + 1) < length (upper_face_list False nx1 ny1)"
      using ij by (intro upper_face_index_bound) simp_all
    then have lo: "nat (2 * (i * nx1 + j)) < length (upper_face_list False nx1 ny1)"
      by linarith
    have split: "elements2d ?m ! k = upper_face_list False nx1 ny1 ! k"
      if "k < length (upper_face_list False nx1 ny1)" for k
      using that by (simp add: built_mesh_def nth_append)
    have e1: "elements2d ?m ! nat (2 * (i * nx1 + j)) =
          (1, [i * (nx1 + 1) + j, i * (nx1 + 1) + j + 1, i * (nx1 + 1) + j + nx1 + 1])"
      unfolding split [OF lo] using ij by (intro nth_upper_face_list(1)) simp_all
    have e2: "elements2d ?m ! nat (2 * (i * nx1 + j) + 1) =
          (1, [i * (nx1 + 1) + j + 1, i * (nx1 + 1) + j + nx1 + 2, i * (nx1 + 1) + j + nx1 + 1])"
      unfolding split [OF hi] using ij by (intro nth_upper_face_list(2)) simp_all
    show ?thesis
      unfolding e1 e2 using assms(1) by auto
  qed
  show ?thesis
  proof (rule exI [of _ ?m], rule conjI)
    show "MakeTStructureMesh False nx1 ny1 nx2 ny2 ratio = Inr ?m"
      by (rule r)
  qed (intro allI impI, rule cells)
qed

theorem triangle_split_witness:
  "(1::int) \<le> 4 \<and> (4::int) < 4 * (4 + 1) \<and>
   (\<exists>m. MakeTStructureMesh False 4 4 4 4 (1/2) = Inr m \<and>
      elements2d m ! 14 = (1, [8, 9, 13]) \<and> elements2d m ! 15 = (1, [9, 14, 13]))"
proof -
  have four: "(1::int) \<le> 4" and fit: "(4::int) < 4 * (4 + 1)"
    by simp_all
  from triangle_split [OF four four four four fit, of "1/2"]
  obtain m where m: "MakeTStructureMesh False 4 4 4 4 (1/2) = Inr m"
    and cells: "\<forall>i j. 0 \<le> i \<and> i < 4 \<and> 0 \<le> j \<and> j < 4 \<longrightarrow>
        elements2d m ! nat (2 * (i * 4 + j)) =
          (1, [i * (4 + 1) + j, i * (4 + 1) + j + 1, i * (4 + 1) + j + 4 + 1]) \<and>
        elements2d m ! nat (2 * (i * 4 + j) + 1) =
          (1, [i * (4 + 1) + j + 1, i * (4 + 1) + j + 4 + 2, i * (4 + 1) + j + 4 + 1]) \<and>
        set (snd (elements2d m ! nat (2 * (i * 4 + j)))) \<inter>
          set (snd (elements2d m ! nat (2 * (i * 4 + j) + 1))) =
          {i * (4 + 1) + j + 1, i * (4 + 1) + j + 4 + 1}"
    by blast
  show ?thesis
    using m cells [rule_format, of 1 3] by simp
qed

text \<open>
  C2. With \<open>quads=True\<close> each connector cell is one quadrilateral
  \<open>[base, base+1, base1+j+1, base1+j]\<close> that joins the seam row to the first stored row of
  the lower grid. With \<open>quads=False\<close> the function repeats the triangles of the upper grid
  (\<open>[base, base+1, base+nx1+1]\<close> and \<open>[base+1, base+nx1+2, base+nx1+1]\<close>): for the default
  sizes the eight connector triangles use the points 10 to 19 of the upper grid only, and
  none of the lower grid's points, which start at index 25.
\<close>

theorem connector_triangles:
  "map_sum id (\<lambda>m. (length (points m), map snd (take 8 (drop 32 (elements2d m)))))
     (MakeTStructureMesh False 4 4 4 4 (1/2)) =
   Inr (45, [[10, 11, 15], [11, 16, 15], [11, 12, 16], [12, 17, 16],
             [12, 13, 17], [13, 18, 17], [13, 14, 18], [14, 19, 18]])"
  by code_simp

text \<open>
  C8, as the specification states it: for all \<open>nx1, ny1, nx2, ny2 \<ge> 1\<close> with \<open>ny1\<close> even
  the segments of each tag form a single connected chain without repeated points. With
  \<open>nx1 = 1\<close>, \<open>ny1 = 2\<close>, \<open>nx2 = 2\<close>, \<open>ny2 = 2\<close> tag 8 holds the two segments \<open>[11, 8]\<close>
  and \<open>[7, 3]\<close>, which share no point: they form no chain, in either order.
\<close>

theorem boundary_chains_counterexample:
  "map_sum id (segments_of 8) (MakeTStructureMesh True 1 2 2 2 (1/2)) = Inr [[11, 8], [7, 3]] \<and>
   \<not> is_chain [[11, 8], [7, 3]] \<and> \<not> is_chain [[7, 3], [11, 8]]"
proof -
  have "map_sum id (segments_of 8) (MakeTStructureMesh True 1 2 2 2 (1/2)) = Inr [[11, 8], [7, 3]]"
    by code_simp
  then show ?thesis
    by (simp add: is_chain_def)
qed

text \<open>
  C8, amended: for all \<open>nx1, ny1, nx2, ny2 \<ge> 1\<close> with \<open>nx1 = nx2\<close>, the segments of each
  tag form a single connected chain that visits no point twice: for the tags 1 to 7 in
  the order in which they are added, for tag 8 once the segment added last (the one from
  the lower grid up to the seam row) is put first. In the order added, the last two segments
  of tag 8 share no point as soon as \<open>ny2 \<ge> 3\<close> (lemma \<open>tag8_in_order_added\<close>).
\<close>

theorem boundary_chains:
  assumes "1 \<le> nx1" and "1 \<le> ny1" and "1 \<le> nx2" and "1 \<le> ny2" and "nx1 = nx2"
  shows "\<exists>m. MakeTStructureMesh quads nx1 ny1 nx2 ny2 ratio = Inr m \<and>
     (\<forall>t \<in> {1, 2, 3, 4, 5, 6, 7}. is_chain (segments_of t m)) \<and>
     is_chain (last (segments_of 8 m) # butlast (segments_of 8 m))"
proof -
  let ?m = "built_mesh quads nx1 ny1 nx2 ny2 ratio"
  have "0 \<le> (ny2 - 1) * (nx2 + 1)"
    using assms by simp
  then have fit: "nx1 < ny2 * (nx2 + 1)"
    using assms by (simp add: algebra_simps)
  have r: "MakeTStructureMesh quads nx1 ny1 nx2 ny2 ratio = Inr ?m"
    using assms(1-4) fit by (rule MakeTStructureMesh_result)
  have c: "\<forall>t \<in> {1, 2, 3, 4, 5, 6, 7}. is_chain (segments_of t ?m)"
    using tag_chains [OF assms(1-4)] by (simp add: segments_of_built)
  have c8: "is_chain (last (segments_of 8 ?m) # butlast (segments_of 8 ?m))"
    using tag8_chain [OF assms] by (simp add: segments_of_built)
  show ?thesis
    using r c c8 by (intro exI [of _ ?m] conjI)
qed

theorem boundary_chains_witness:
  "(1::int) \<le> 4 \<and> (4::int) = 4 \<and>
   (\<exists>m. MakeTStructureMesh True 4 4 4 4 (1/2) = Inr m \<and>
      is_chain (segments_of 1 m) \<and> is_chain (segments_of 6 m) \<and>
      is_chain (last (segments_of 8 m) # butlast (segments_of 8 m)))"
proof -
  have four: "(1::int) \<le> 4" and same: "(4::int) = 4"
    by simp_all
  from boundary_chains [OF four four four four same, of True "1/2"]
  obtain m where "MakeTStructureMesh True 4 4 4 4 (1/2) = Inr m"
    and "\<forall>t \<in> {1, 2, 3, 4, 5, 6, 7}. is_chain (segments_of t m)"
    and "is_chain (last (segments_of 8 m) # butlast (segments_of 8 m))"
    by blast
  then show ?thesis
    by simp
qed

text \<open>
  C10. Two calls that agree on \<open>quads, nx1, ny1, nx2, ny2\<close> and differ in \<open>ratio\<close> either
  raise the same exception or return meshes with the same faces, the same tagged segments
  and the same tag names; the two meshes have as many points, with the same \<open>x\<close> and \<open>z\<close>
  coordinates, and the same upper-grid points (the first \<open>(ny1+1)*(nx1+1)\<close>, written with
  \<open>nat\<close> as the point loops count them): \<open>ratio\<close> reaches the \<open>y\<close> coordinate of the
  lower-grid points only. This holds for all integer parameters.
\<close>

theorem ratio_moves_lower_points_only:
  "rel_sum (=) (same_but_lower_y (nat (ny1 + 1) * nat (nx1 + 1)))
     (MakeTStructureMesh quads nx1 ny1 nx2 ny2 r1)
     (MakeTStructureMesh quads nx1 ny1 nx2 ny2 r2)"
proof -
  let ?k = "nat (ny1 + 1) * nat (nx1 + 1)"
  have rest: "rel_sum (=) (same_but_lower_y ?k)
      (case s of (m, pids) \<Rightarrow>
         bind_err (upper_faces getitem quads nx1 ny1 pids (add_facedescriptor (1, 1, 1) m)) (\<lambda>m.
         bind_err (connector_faces getitem quads nx1 ny1 ((ny1 + 1) * (nx1 + 1)) pids m) (\<lambda>m.
         bind_err (lower_faces getitem quads nx2 ny2 ((ny1 + 1) * (nx1 + 1)) pids m) (\<lambda>m.
         bind_err (boundary_segments getitem nx1 ny1 nx2 ny2 ((ny1 + 1) * (nx1 + 1)) pids m) (\<lambda>m.
         Inr (set_names m))))))
      (case t of (m, pids) \<Rightarrow>
         bind_err (upper_faces getitem quads nx1 ny1 pids (add_facedescriptor (1, 1, 1) m)) (\<lambda>m.
         bind_err (connector_faces getitem quads nx1 ny1 ((ny1 + 1) * (nx1 + 1)) pids m) (\<lambda>m.
         bind_err (lower_faces getitem quads nx2 ny2 ((ny1 + 1) * (nx1 + 1)) pids m) (\<lambda>m.
         bind_err (boundary_segments getitem nx1 ny1 nx2 ny2 ((ny1 + 1) * (nx1 + 1)) pids m) (\<lambda>m.
         Inr (set_names m))))))"
    if st: "snd s = snd t \<and> same_but_lower_y ?k (fst s) (fst t)" for s t
  proof -
    obtain ms mt pids where s: "s = (ms, pids)" and t: "t = (mt, pids)"
      using st by (cases s, cases t) simp
    have start: "same_but_lower_y ?k (add_facedescriptor (1, 1, 1) ms)
        (add_facedescriptor (1, 1, 1) mt)"
      using st by (simp add: s t same_but_lower_y_def add_facedescriptor_def)
    have names: "rel_sum (=) (same_but_lower_y ?k) (Inr (set_names a)) (Inr (set_names b))"
      if "same_but_lower_y ?k a b" for a b
      using that by (simp add: same_but_lower_y_def set_names_def SetCD2Name_def)
    show ?thesis
      unfolding s t prod.case
      by (rule bind_err_rel [where R = "same_but_lower_y ?k"] faces_rel
          boundary_segments_rel names start | assumption)+
  qed
  show ?thesis
    unfolding MakeTStructureMesh_def MakeTStructureMesh_reading_def Let_def
    by (rule bind_err_rel [OF make_points_rel]) (rule rest)
qed

end
